theory Spec2Isabelle
  imports Main "HOL-Library.Word"
begin

section \<open>Basic types\<close>

text \<open>
  Centipede, an out-of-process fuzzing engine. This development embeds the byte-array
  mutator's configuration and dispatcher (\<^verbatim>\<open>byte_array_mutator.h\<close>) and the engine's batch
  grading, shard loading and crash reporting (\<^verbatim>\<open>centipede.cc\<close>).

  \<^verbatim>\<open>size_t\<close> is a 64-bit unsigned word and \<^verbatim>\<open>uint8_t\<close> an 8-bit one: arithmetic on them
  wraps around. An abnormal end of the process (a \<^verbatim>\<open>CHECK\<close> that fails, a
  \<^verbatim>\<open>__builtin_trap()\<close>, a division by zero, an access outside a buffer) is a value of
  type \<open>failure\<close>, returned on the left of a sum.
\<close>

type_synonym uint8_t = "8 word"
type_synonym size_t = "64 word"
type_synonym ByteArray = "uint8_t list"

datatype failure = Trap | DivisionByZero | OutOfBounds | CheckFailed string

definition SIZE_MAX :: size_t where
  "SIZE_MAX = - 1"

section \<open>Dictionary entries (byte\_array\_mutator.h)\<close>

text \<open>
  A \<^verbatim>\<open>DictEntry\<close> object is 16 bytes: the 15-byte buffer \<^verbatim>\<open>bytes_\<close>, zero-initialised and
  then filled from the front, followed by the one-byte \<^verbatim>\<open>size_\<close>.
\<close>

record DictEntry =
  entry_bytes :: "uint8_t list"
  entry_size :: uint8_t

definition kMaxEntrySize :: uint8_t where
  "kMaxEntrySize = 15"

text \<open>
  The constructor narrows \<^verbatim>\<open>bytes.size()\<close> to \<^verbatim>\<open>uint8_t\<close> before it compares it with
  \<^verbatim>\<open>kMaxEntrySize\<close>; \<^verbatim>\<open>memcpy\<close> then copies \<^verbatim>\<open>bytes.size()\<close> bytes into the buffer.
\<close>

definition DictEntry_ctor :: "ByteArray \<Rightarrow> failure + DictEntry" where
  "DictEntry_ctor bs =
     (let size_v = (of_nat (length bs) :: uint8_t) in
      if size_v > kMaxEntrySize then Inl Trap
      else if length bs > unat kMaxEntrySize then Inl OutOfBounds
      else Inr \<lparr>entry_bytes = bs @ replicate (unat kMaxEntrySize - length bs) 0,
                entry_size = size_v\<rparr>)"

text \<open>
  \<^verbatim>\<open>memcmp(a, b, n)\<close> compares the first \<open>n\<close> bytes as unsigned values and returns
  a negative, zero or positive number; only the sign is specified, so the model returns
  \<open>-1\<close>, \<open>0\<close> or \<open>1\<close>. Reading past the end of either buffer is \<open>OutOfBounds\<close>.
\<close>

fun memcmp :: "uint8_t list \<Rightarrow> uint8_t list \<Rightarrow> nat \<Rightarrow> failure + int" where
  "memcmp a b 0 = Inr 0"
| "memcmp (x # a) (y # b) (Suc n) =
     (if x < y then Inr (- 1) else if y < x then Inr 1 else memcmp a b n)"
| "memcmp a b (Suc n) = Inl OutOfBounds"

definition object_representation :: "DictEntry \<Rightarrow> uint8_t list" where
  "object_representation e = entry_bytes e @ [entry_size e]"

definition sizeof_DictEntry :: nat where
  "sizeof_DictEntry = 16"

text \<open>\<^verbatim>\<open>operator<\<close>: \<^verbatim>\<open>memcmp(this, &other, sizeof(*this)) < 0\<close>.\<close>

definition DictEntry_less :: "DictEntry \<Rightarrow> DictEntry \<Rightarrow> failure + bool" where
  "DictEntry_less a b =
     (case memcmp (object_representation a) (object_representation b) sizeof_DictEntry of
        Inl f \<Rightarrow> Inl f
      | Inr c \<Rightarrow> Inr (c < 0))"

section \<open>The byte-array mutator (byte\_array\_mutator.h)\<close>

text \<open>
  Modelled from the spec: \<^verbatim>\<open>knobs.h\<close> is not among the sources. The spec calls the knobs a
  weighted selector configuration; here they are the list of the weights, one byte each.
\<close>

type_synonym Knobs = "uint8_t list"

text \<open>
  The mutator object. The generator type \<^verbatim>\<open>Rng\<close> is declared in \<^verbatim>\<open>defs.h\<close>: its state is the
  type parameter \<open>'r\<close>, and drawing a number is a function \<open>rng_next\<close> from a state to the
  64-bit value drawn and the next state, passed to whatever draws.
\<close>

record 'r ByteArrayMutator =
  size_alignment :: size_t
  max_len :: size_t
  rng :: 'r
  knobs :: Knobs
  dictionary :: "DictEntry list"
  cmp_dictionary :: "(DictEntry \<times> DictEntry) list"

text \<open>
  The two setters. \<^verbatim>\<open>max_len_ % size_alignment\<close> is only evaluated when the first
  conjunct holds (\<^verbatim>\<open>&&\<close> short-circuits), and dividing by zero there ends the process.
\<close>

definition set_size_alignment ::
  "size_t \<Rightarrow> 'r ByteArrayMutator \<Rightarrow> failure + (bool \<times> 'r ByteArrayMutator)" where
  "set_size_alignment a m =
     (if max_len m \<noteq> SIZE_MAX \<and> a = 0 then Inl DivisionByZero
      else if max_len m \<noteq> SIZE_MAX \<and> max_len m mod a \<noteq> 0 then Inr (False, m)
      else Inr (True, m\<lparr>size_alignment := a\<rparr>))"

definition set_max_len ::
  "size_t \<Rightarrow> 'r ByteArrayMutator \<Rightarrow> failure + (bool \<times> 'r ByteArrayMutator)" where
  "set_max_len ml m =
     (if ml \<noteq> SIZE_MAX \<and> size_alignment m = 0 then Inl DivisionByZero
      else if ml \<noteq> SIZE_MAX \<and> ml mod size_alignment m \<noteq> 0 then Inr (False, m)
      else Inr (True, m\<lparr>max_len := ml\<rparr>))"

text \<open>
  A mutation primitive (\<^verbatim>\<open>Fn\<close>, a pointer to a member function) takes the mutator and the
  data, may change both, and returns whether it mutated.
\<close>

type_synonym 'r Fn = "'r ByteArrayMutator \<Rightarrow> ByteArray \<Rightarrow> bool \<times> 'r ByteArrayMutator \<times> ByteArray"

text \<open>
  \<^verbatim>\<open>ApplyOneOf\<close>: the loop \<^verbatim>\<open>for (int iter = 0; iter < 10; iter++)\<close>, from the iteration
  \<open>iter\<close> on. \<^verbatim>\<open>kArraySize\<close> is the length of \<open>fn\<close>; with an empty array
  \<^verbatim>\<open>rng_() % kArraySize\<close> divides by zero.
\<close>

function ApplyOneOf_from ::
  "('r \<Rightarrow> 64 word \<times> 'r) \<Rightarrow> 'r Fn list \<Rightarrow> nat \<Rightarrow> 'r ByteArrayMutator \<Rightarrow> ByteArray
     \<Rightarrow> failure + (bool \<times> 'r ByteArrayMutator \<times> ByteArray)" where
  "ApplyOneOf_from rng_next fn iter m bs =
     (if iter < 10 then
        (if fn = [] then Inl DivisionByZero
         else
           (let (r, g) = rng_next (rng m);
                mut_idx = unat r mod length fn;
                (ok, m', bs') = (fn ! mut_idx) (m\<lparr>rng := g\<rparr>) bs
            in if ok then Inr (True, m', bs')
               else ApplyOneOf_from rng_next fn (iter + 1) m' bs'))
      else Inr (False, m, bs))"
  by pat_completeness auto
termination
  by (relation "measure (\<lambda>(rng_next, fn, iter, m, bs). 10 - iter)") auto

definition ApplyOneOf ::
  "('r \<Rightarrow> 64 word \<times> 'r) \<Rightarrow> 'r Fn list \<Rightarrow> 'r ByteArrayMutator \<Rightarrow> ByteArray
     \<Rightarrow> failure + (bool \<times> 'r ByteArrayMutator \<times> ByteArray)" where
  "ApplyOneOf rng_next fn m bs = ApplyOneOf_from rng_next fn 0 m bs"

text \<open>
  The attempts of that loop, in order: the index drawn and what the primitive at that
  index returned. The recursion is the one of \<open>ApplyOneOf_from\<close>.
\<close>

function ApplyOneOf_attempts ::
  "('r \<Rightarrow> 64 word \<times> 'r) \<Rightarrow> 'r Fn list \<Rightarrow> nat \<Rightarrow> 'r ByteArrayMutator \<Rightarrow> ByteArray
     \<Rightarrow> (nat \<times> bool) list" where
  "ApplyOneOf_attempts rng_next fn iter m bs =
     (if iter < 10 \<and> fn \<noteq> [] then
        (let (r, g) = rng_next (rng m);
             mut_idx = unat r mod length fn;
             (ok, m', bs') = (fn ! mut_idx) (m\<lparr>rng := g\<rparr>) bs
         in (mut_idx, ok) #
            (if ok then [] else ApplyOneOf_attempts rng_next fn (iter + 1) m' bs'))
      else [])"
  by pat_completeness auto
termination
  by (relation "measure (\<lambda>(rng_next, fn, iter, m, bs). 10 - iter)") auto

text \<open>
  Modelled from the spec: what a draw "according to knobs-weighted probabilities" can
  return (the weighted choice itself is in \<^verbatim>\<open>knobs.h\<close>, not among the sources). With the
  weights \<open>ws\<close> of the candidates, an index can be drawn when its weight is positive, or
  when no weight is.
\<close>

definition knobs_weighted_possible :: "Knobs \<Rightarrow> nat \<Rightarrow> bool" where
  "knobs_weighted_possible ws i = (i < length ws \<and> (ws ! i \<noteq> 0 \<or> list_all (\<lambda>w. w = 0) ws))"

section \<open>Features, feature set and corpus\<close>

type_synonym feature_t = "64 word"
type_synonym FeatureVec = "feature_t list"

text \<open>
  Modelled from the spec: the feature set (\<^verbatim>\<open>feature.h\<close>) is not among the sources. The
  spec describes it as a map from features to saturating 8-bit counters with a frequency
  threshold, and its operations as follows. \<^verbatim>\<open>count_unseen_and_prune_frequent\<close> "removes
  features with frequency \<open>\<ge>\<close> threshold from fv; returns true iff at least one remaining
  feature has frequency 0"; \<^verbatim>\<open>increment_frequencies\<close> "increments counters for all
  features in fv".
\<close>

record FeatureSet =
  frequency_threshold :: uint8_t
  frequencies :: "feature_t \<Rightarrow> uint8_t"

definition Frequency :: "FeatureSet \<Rightarrow> feature_t \<Rightarrow> uint8_t" where
  "Frequency fset f = frequencies fset f"

definition CountUnseenAndPruneFrequentFeatures ::
  "FeatureSet \<Rightarrow> FeatureVec \<Rightarrow> bool \<times> FeatureVec" where
  "CountUnseenAndPruneFrequentFeatures fset fv =
     (let kept = filter (\<lambda>f. Frequency fset f < frequency_threshold fset) fv
      in (list_ex (\<lambda>f. Frequency fset f = 0) kept, kept))"

definition saturating_increment :: "uint8_t \<Rightarrow> uint8_t" where
  "saturating_increment c = (if c = 255 then 255 else c + 1)"

definition IncrementFrequency ::
  "feature_t \<Rightarrow> (feature_t \<Rightarrow> uint8_t) \<Rightarrow> feature_t \<Rightarrow> uint8_t" where
  "IncrementFrequency f fr = fr(f := saturating_increment (fr f))"

definition IncrementFrequencies :: "FeatureSet \<Rightarrow> FeatureVec \<Rightarrow> FeatureSet" where
  "IncrementFrequencies fset fv =
     fset\<lparr>frequencies := fold IncrementFrequency fv (frequencies fset)\<rparr>"

text \<open>
  Modelled from the spec: the corpus (\<^verbatim>\<open>corpus.h\<close>) is not among the sources. The spec
  describes a corpus record as input, features and cmp\_args, and the corpus as an ordered
  collection of records with append, the number of active records and the number of all
  records ever added (the active ones and the pruned ones).
\<close>

record CorpusRecord =
  data :: ByteArray
  features :: FeatureVec
  cmp_args :: ByteArray

record Corpus =
  records :: "CorpusRecord list"
  num_pruned :: nat

definition Corpus_Add :: "Corpus \<Rightarrow> ByteArray \<Rightarrow> FeatureVec \<Rightarrow> ByteArray \<Rightarrow> Corpus" where
  "Corpus_Add c input fv cmp =
     c\<lparr>records := records c @ [\<lparr>data = input, features = fv, cmp_args = cmp\<rparr>]\<rparr>"

definition NumActive :: "Corpus \<Rightarrow> nat" where
  "NumActive c = length (records c)"


definition Corpus_Get :: "Corpus \<Rightarrow> nat \<Rightarrow> ByteArray" where
  "Corpus_Get c idx = data (records c ! idx)"

section \<open>The engine's state and its collaborators (centipede.cc)\<close>

text \<open>The options of \<^verbatim>\<open>Environment\<close> that the embedded functions read.\<close>

record Environment =
  binary :: string
  extra_binaries :: "string list"
  workdir :: string
  corpus_dir :: "string list"
  input_filter :: string
  my_shard_index :: size_t
  total_shards :: size_t
  batch_size :: size_t
  max_num_crash_reports :: size_t
  load_other_shard_frequency :: size_t
  exit_on_crash :: bool
  use_pcpair_features :: bool
  LogFeaturesInThisShard :: bool

text \<open>What the execution callback fills in for a batch.\<close>

record ExecutionResult =
  mutable_features :: FeatureVec
  result_cmp_args :: ByteArray

record BatchResult =
  results :: "ExecutionResult list"
  exit_code :: int
  failure_description :: string
  batch_log :: string
  num_outputs_read :: size_t

text \<open>
  The collaborators that are declared outside the embedded files, as parameters: the
  execution callback, the filters, hashing and packing, the shard reader, the feature
  domains and the path builders. Whatever they depend on outside the engine (the target,
  the file system, the other shards) is a state \<open>'w\<close> that the engine threads through
  the calls that may change it.
  \<^item> \<open>Execute w binary inputs\<close> is \<^verbatim>\<open>user_callbacks_.Execute\<close>: success, the batch result
    and the next outside state.
  \<^item> \<open>input_filter_cmd w input\<close> is the exit status of \<^verbatim>\<open>input_filter_cmd_.Execute()\<close> on the
    file that holds \<open>input\<close>.
  \<^item> \<open>function_filter fv\<close> is \<^verbatim>\<open>function_filter_.filter(fv)\<close>.
  \<^item> \<open>ReadShard w corpus_path features_path\<close> is the sequence of (input, features) pairs
    that \<^verbatim>\<open>ReadShard\<close> passes to its callback.
  \<^item> \<open>fopen_ok w path\<close> tells whether \<^verbatim>\<open>std::fopen(path, "w")\<close> returns a file.
  \<^item> \<open>pc_table_size\<close> is \<^verbatim>\<open>pc_table_.size()\<close>.
\<close>

record 'w Collaborators =
  Execute :: "'w \<Rightarrow> string \<Rightarrow> ByteArray list \<Rightarrow> bool \<times> BatchResult \<times> 'w"
  DummyValidInput :: ByteArray
  function_filter :: "FeatureVec \<Rightarrow> bool"
  input_filter_cmd :: "'w \<Rightarrow> ByteArray \<Rightarrow> int \<times> 'w"
  Hash :: "ByteArray \<Rightarrow> string"
  PackFeaturesAndHash :: "ByteArray \<Rightarrow> FeatureVec \<Rightarrow> ByteArray"
  ReadShard :: "'w \<Rightarrow> string \<Rightarrow> string \<Rightarrow> (ByteArray \<times> FeatureVec) list"
  k8bitCounters_Contains :: "feature_t \<Rightarrow> bool"
  Convert8bitCounterFeatureToPcIndex :: "feature_t \<Rightarrow> size_t"
  ConvertPcPairToNumber :: "size_t \<Rightarrow> size_t \<Rightarrow> size_t \<Rightarrow> size_t"
  kPCPair_ConvertToMe :: "size_t \<Rightarrow> feature_t"
  MakeCorpusPath :: "Environment \<Rightarrow> size_t \<Rightarrow> string"
  MakeFeaturesPath :: "Environment \<Rightarrow> size_t \<Rightarrow> string"
  fopen_ok :: "'w \<Rightarrow> string \<Rightarrow> bool"
  pc_table_size :: size_t

text \<open>What the engine writes to the log, one constructor for each message.\<close>

datatype log_event =
    BatchExecutionFailed size_t string int string nat string
  | ReachedMaxNumCrashReports size_t
  | ExecutingInputsOneByOne size_t
  | DetectedCrashReproducingInput size_t ByteArray int string string
  | CrashWasNotObserved size_t
  | ExitOnCrashIsEnabled
  | FeaturesAsSymbols FeatureVec
  | Stats string
  | InputsToRerun nat
  | MergeFrom string
  | MergeNewInputsAdded nat

text \<open>
  The engine's state: the members of \<^verbatim>\<open>Centipede\<close> that the embedded functions change, the
  early-exit request of \<^verbatim>\<open>util.h\<close> (\<open>None\<close> until \<^verbatim>\<open>RequestEarlyExit\<close> is called), the log, and
  the files. \<open>blob_files\<close> maps a path to the blobs appended to it, in order; \<open>local_files\<close>
  and \<open>remote_files\<close> map a path to the contents of the file written there; \<open>executions\<close>
  records every call of the execution callback (binary, inputs, success), in order.
  Opening a blob file and appending to it are taken to succeed (\<^verbatim>\<open>CHECK_OK\<close> passes). A
  signal that requests an early exit while the engine runs is not part of the model.
\<close>

record 'w Centipede =
  fs :: FeatureSet
  corpus :: Corpus
  num_runs :: size_t
  num_crash_reports :: size_t
  requested_exit :: "int option"
  log_lines :: "log_event list"
  blob_files :: "string \<Rightarrow> ByteArray list"
  local_files :: "string \<Rightarrow> ByteArray option"
  remote_files :: "string \<Rightarrow> ByteArray option"
  remote_dirs :: "string list"
  world :: 'w
  executions :: "(string \<times> ByteArray list \<times> bool) list"

definition LOG :: "log_event \<Rightarrow> 'w Centipede \<Rightarrow> 'w Centipede" where
  "LOG e s = s\<lparr>log_lines := log_lines s @ [e]\<rparr>"

definition RequestEarlyExit :: "int \<Rightarrow> 'w Centipede \<Rightarrow> 'w Centipede" where
  "RequestEarlyExit code s = s\<lparr>requested_exit := Some code\<rparr>"

definition EarlyExitRequested :: "'w Centipede \<Rightarrow> bool" where
  "EarlyExitRequested s = (requested_exit s \<noteq> None)"

definition ExitCode :: "'w Centipede \<Rightarrow> int" where
  "ExitCode s = (case requested_exit s of None \<Rightarrow> 0 | Some code \<Rightarrow> code)"

text \<open>\<^verbatim>\<open>if (file) CHECK_OK(file->Append(blob))\<close>, with \<open>None\<close> for a null appender.\<close>

definition AppendIfOpen :: "string option \<Rightarrow> ByteArray \<Rightarrow> 'w Centipede \<Rightarrow> 'w Centipede" where
  "AppendIfOpen file blob s =
     (case file of
        None \<Rightarrow> s
      | Some path \<Rightarrow> s\<lparr>blob_files := (blob_files s)(path := blob_files s path @ [blob])\<rparr>)"

text \<open>
  \<^verbatim>\<open>std::filesystem::path(dir).append(name)\<close> for a directory path that does not end in a
  separator and a relative, non-empty name.
\<close>

definition path_append :: "string \<Rightarrow> string \<Rightarrow> string" where
  "path_append dir name = dir @ ''/'' @ name"

text \<open>
  \<^verbatim>\<open>WriteToLocalHashedFileInDir\<close> (util.h): writes \<open>data\<close> to \<open>dir_path/Hash(data)\<close>, and does
  nothing if \<open>dir_path\<close> is empty.
\<close>

definition WriteToLocalHashedFileInDir ::
  "'w Collaborators \<Rightarrow> string \<Rightarrow> ByteArray \<Rightarrow> 'w Centipede \<Rightarrow> 'w Centipede" where
  "WriteToLocalHashedFileInDir ext dir_path bs s =
     (if dir_path = [] then s
      else s\<lparr>local_files := (local_files s)(path_append dir_path (Hash ext bs) \<mapsto> bs)\<rparr>)"

text \<open>
  Modelled from the spec: \<^verbatim>\<open>Environment::MakeCrashReproducerDirPath\<close> is not among the
  sources; the spec gives the layout \<^verbatim>\<open><workdir>/crashes/<hash>\<close>.
\<close>

definition MakeCrashReproducerDirPath :: "Environment \<Rightarrow> string" where
  "MakeCrashReproducerDirPath env = path_append (workdir env) ''crashes''"

text \<open>
  \<^verbatim>\<open>UpdateAndMaybeLogStats\<close> and \<^verbatim>\<open>LogFeaturesAsSymbols\<close> write statistics and log lines
  only; each is one log event here.
\<close>

definition UpdateAndMaybeLogStats :: "string \<Rightarrow> 'w Centipede \<Rightarrow> 'w Centipede" where
  "UpdateAndMaybeLogStats log_type s = LOG (Stats log_type) s"

definition LogFeaturesAsSymbols :: "Environment \<Rightarrow> FeatureVec \<Rightarrow> 'w Centipede \<Rightarrow> 'w Centipede" where
  "LogFeaturesAsSymbols env fv s =
     (if \<not> LogFeaturesInThisShard env then s else LOG (FeaturesAsSymbols fv) s)"

text \<open>
  \<^verbatim>\<open>InputPassesFilter\<close>: the filter file is written before the command runs and removed
  after it, so only the command's answer remains.
\<close>

definition InputPassesFilter ::
  "'w Collaborators \<Rightarrow> Environment \<Rightarrow> ByteArray \<Rightarrow> 'w Centipede \<Rightarrow> bool \<times> 'w Centipede" where
  "InputPassesFilter ext env input s =
     (if input_filter env = [] then (True, s)
      else (let (status, w) = input_filter_cmd ext (world s) input
            in (status = 0, s\<lparr>world := w\<rparr>)))"

section \<open>Crash reporting (centipede.cc, ReportCrash)\<close>

text \<open>
  The loop over \<^verbatim>\<open>input_idxs_to_try\<close>. It returns \<open>True\<close> with the state in which the
  reproducer is written when an input fails on its own (the \<^verbatim>\<open>return\<close> inside the loop),
  and \<open>False\<close> when the loop ends. \<open>n\<close> is the report's number in \<^verbatim>\<open>log_prefix\<close>.
\<close>

fun TryInputs ::
  "'w Collaborators \<Rightarrow> Environment \<Rightarrow> size_t \<Rightarrow> string \<Rightarrow> ByteArray list \<Rightarrow> nat list
     \<Rightarrow> 'w Centipede \<Rightarrow> failure + (bool \<times> 'w Centipede)" where
  "TryInputs ext env n bin input_vec [] s = Inr (False, s)"
| "TryInputs ext env n bin input_vec (input_idx # idxs) s =
     (if length input_vec \<le> input_idx then Inl OutOfBounds
      else
        (let one_input = input_vec ! input_idx;
             (ok, one_input_batch_result, w) = Execute ext (world s) bin [one_input];
             s1 = s\<lparr>world := w, executions := executions s @ [(bin, [one_input], ok)]\<rparr>
         in if \<not> ok then
              (let hash = Hash ext one_input;
                   crash_dir = MakeCrashReproducerDirPath env
               in if crash_dir = [] then Inl (CheckFailed ''CHECK(!path.empty())'')
                  else
                    (let s2 = s1\<lparr>remote_dirs := crash_dir # remote_dirs s1\<rparr>;
                         file_path = path_append crash_dir hash;
                         s3 = LOG (DetectedCrashReproducingInput n one_input
                                     (exit_code one_input_batch_result)
                                     (failure_description one_input_batch_result) file_path) s2
                     in if \<not> fopen_ok ext (world s3) file_path
                        then Inl (CheckFailed ''CHECK(file != nullptr)'')
                        else Inr (True,
                               s3\<lparr>remote_files := (remote_files s3)(file_path \<mapsto> one_input)\<rparr>)))
            else TryInputs ext env n bin input_vec idxs s1))"

text \<open>
  The order in which the inputs are tried: \<^verbatim>\<open>std::iota\<close> over a deque of
  \<^verbatim>\<open>input_vec.size()\<close> indices, and \<^verbatim>\<open>push_front(suspect_input_idx)\<close> when the suspect index
  is one of them.
\<close>

definition input_idxs_to_try :: "nat \<Rightarrow> size_t \<Rightarrow> nat list" where
  "input_idxs_to_try n suspect_input_idx =
     (if unat suspect_input_idx < n then unat suspect_input_idx # [0..<n] else [0..<n])"

definition ReportCrash ::
  "'w Collaborators \<Rightarrow> Environment \<Rightarrow> string \<Rightarrow> ByteArray list \<Rightarrow> BatchResult
     \<Rightarrow> 'w Centipede \<Rightarrow> failure + 'w Centipede" where
  "ReportCrash ext env bin input_vec batch_result s =
     (if num_crash_reports s \<ge> max_num_crash_reports env then Inr s
      else
        (let n = num_crash_reports s;
             s1 = LOG (BatchExecutionFailed n bin (exit_code batch_result)
                         (failure_description batch_result) (length input_vec)
                         (batch_log batch_result)) s;
             s2 = s1\<lparr>num_crash_reports := n + 1\<rparr>;
             s3 = (if num_crash_reports s2 = max_num_crash_reports env
                   then LOG (ReachedMaxNumCrashReports n) s2 else s2)
         in if length input_vec \<noteq> length (results batch_result)
            then Inl (CheckFailed ''CHECK_EQ'')
            else
              (let idxs = input_idxs_to_try (length input_vec) (num_outputs_read batch_result);
                   s4 = LOG (ExecutingInputsOneByOne n) s3
               in case TryInputs ext env n bin input_vec idxs s4 of
                    Inl f \<Rightarrow> Inl f
                  | Inr (found, s5) \<Rightarrow>
                      if found then Inr s5 else Inr (LOG (CrashWasNotObserved n) s5))))"

definition ExecuteAndReportCrash ::
  "'w Collaborators \<Rightarrow> Environment \<Rightarrow> string \<Rightarrow> ByteArray list \<Rightarrow> 'w Centipede
     \<Rightarrow> failure + (bool \<times> BatchResult \<times> 'w Centipede)" where
  "ExecuteAndReportCrash ext env bin input_vec s =
     (let (success, batch_result, w) = Execute ext (world s) bin input_vec;
          s1 = s\<lparr>world := w, executions := executions s @ [(bin, input_vec, success)]\<rparr>
      in if \<not> success then
           (case ReportCrash ext env bin input_vec batch_result s1 of
              Inl f \<Rightarrow> Inl f
            | Inr s2 \<Rightarrow> Inr (success, batch_result, s2))
         else Inr (success, batch_result, s1))"

section \<open>Grading a batch (centipede.cc, RunBatch)\<close>

text \<open>
  \<^verbatim>\<open>AddPcPairFeatures\<close>: the PCs of the 8-bit-counter features of \<open>fv\<close>, and for every
  pair of positions \<open>i < j\<close> among them, in the order of the two loops, the pair's feature
  if its frequency is zero. It returns the number of features added and the extended
  vector.
\<close>

definition AddPcPairFeatures ::
  "'w Collaborators \<Rightarrow> FeatureSet \<Rightarrow> FeatureVec \<Rightarrow> nat \<times> FeatureVec" where
  "AddPcPairFeatures ext fset fv =
     (let pcs = map (Convert8bitCounterFeatureToPcIndex ext) (filter (k8bitCounters_Contains ext) fv);
          n = length pcs;
          added =
            concat (map (\<lambda>i. concat (map (\<lambda>j.
              (let f = kPCPair_ConvertToMe ext
                         (ConvertPcPairToNumber ext (pcs ! i) (pcs ! j) (pc_table_size ext))
               in if Frequency fset f \<noteq> 0 then [] else [f])) [i + 1..<n])) [0..<n])
      in (length added, fv @ added))"

text \<open>
  The first half of the loop body of \<^verbatim>\<open>RunBatch\<close>: whether the input gained new coverage,
  and its feature vector after pruning and after the PC pairs are added.
  \<^verbatim>\<open>AddPcPairFeatures\<close> is only called when \<^verbatim>\<open>use_pcpair_features\<close> is set.
\<close>

definition InputGainedNewCoverage ::
  "'w Collaborators \<Rightarrow> Environment \<Rightarrow> FeatureSet \<Rightarrow> FeatureVec \<Rightarrow> bool \<times> FeatureVec" where
  "InputGainedNewCoverage ext env fset fv0 =
     (let (unseen, fv1) = CountUnseenAndPruneFrequentFeatures fset fv0
      in if use_pcpair_features env then
           (let (num_added_pairs, fv2) = AddPcPairFeatures ext fset fv1
            in (if num_added_pairs \<noteq> 0 then True else unseen, fv2))
         else (unseen, fv1))"

text \<open>
  One iteration of the loop of \<^verbatim>\<open>RunBatch\<close> after the early-exit test, for the input and
  its execution result. It returns whether the iteration set
  \<^verbatim>\<open>batch_gained_new_coverage\<close>.
\<close>

definition GradeInput ::
  "'w Collaborators \<Rightarrow> Environment \<Rightarrow> string option \<Rightarrow> string option \<Rightarrow> string option
     \<Rightarrow> ByteArray \<times> ExecutionResult \<Rightarrow> 'w Centipede \<Rightarrow> failure + (bool \<times> 'w Centipede)" where
  "GradeInput ext env corpus_file features_file unconditional_features_file ir s =
     (let input = fst ir;
          function_filter_passed = function_filter ext (mutable_features (snd ir));
          (input_gained_new_coverage, fv) =
             InputGainedNewCoverage ext env (fs s) (mutable_features (snd ir));
          s1 = AppendIfOpen unconditional_features_file (PackFeaturesAndHash ext input fv) s
      in if input_gained_new_coverage then
           (let (passes, s2) = InputPassesFilter ext env input s1
            in if \<not> passes then Inr (False, s2)
               else
                 (let s3 = s2\<lparr>fs := IncrementFrequencies (fs s2) fv\<rparr>;
                      s4 = LogFeaturesAsSymbols env fv s3
                  in if \<not> length fv > 0 then Inl (CheckFailed ''CHECK_GT'')
                     else
                       (let s5 = (if function_filter_passed
                                  then s4\<lparr>corpus := Corpus_Add (corpus s4) input fv
                                                       (result_cmp_args (snd ir))\<rparr>
                                  else s4);
                            s6 = AppendIfOpen corpus_file input s5;
                            s7 = (if corpus_dir env \<noteq> []
                                  then WriteToLocalHashedFileInDir ext (corpus_dir env ! 0) input s6
                                  else s6);
                            s8 = AppendIfOpen features_file (PackFeaturesAndHash ext input fv) s7
                        in Inr (True, s8))))
         else Inr (False, s1))"

text \<open>
  The loop of \<^verbatim>\<open>RunBatch\<close> over the inputs and their results, with the flag
  \<^verbatim>\<open>batch_gained_new_coverage\<close>; it stops when an early exit has been requested.
\<close>

fun GradeInputs ::
  "'w Collaborators \<Rightarrow> Environment \<Rightarrow> string option \<Rightarrow> string option \<Rightarrow> string option
     \<Rightarrow> (ByteArray \<times> ExecutionResult) list \<Rightarrow> bool \<Rightarrow> 'w Centipede
     \<Rightarrow> failure + (bool \<times> 'w Centipede)" where
  "GradeInputs ext env cf ff uf [] gained s = Inr (gained, s)"
| "GradeInputs ext env cf ff uf (ir # irs) gained s =
     (if EarlyExitRequested s then Inr (gained, s)
      else
        (case GradeInput ext env cf ff uf ir s of
           Inl f \<Rightarrow> Inl f
         | Inr (g, s1) \<Rightarrow> GradeInputs ext env cf ff uf irs (gained \<or> g) s1))"

text \<open>
  The loop of \<^verbatim>\<open>RunBatch\<close> over \<^verbatim>\<open>env_.extra_binaries\<close>, with the flag \<^verbatim>\<open>success\<close>. The
  result of an extra binary is only used by the crash reporter.
\<close>

fun RunExtraBinaries ::
  "'w Collaborators \<Rightarrow> Environment \<Rightarrow> ByteArray list \<Rightarrow> string list \<Rightarrow> bool \<Rightarrow> 'w Centipede
     \<Rightarrow> failure + (bool \<times> 'w Centipede)" where
  "RunExtraBinaries ext env input_vec [] success s = Inr (success, s)"
| "RunExtraBinaries ext env input_vec (extra_binary # bins) success s =
     (case ExecuteAndReportCrash ext env extra_binary input_vec s of
        Inl f \<Rightarrow> Inl f
      | Inr (ok, extra_batch_result, s1) \<Rightarrow>
          RunExtraBinaries ext env input_vec bins (ok \<and> success) s1)"

text \<open>
  \<^verbatim>\<open>RunBatch\<close>. The two \<^verbatim>\<open>CHECK_EQ\<close> compare the same two sizes, before and after the
  extra binaries run; the first decides.
\<close>

definition RunBatch ::
  "'w Collaborators \<Rightarrow> Environment \<Rightarrow> ByteArray list \<Rightarrow> string option \<Rightarrow> string option
     \<Rightarrow> string option \<Rightarrow> 'w Centipede \<Rightarrow> failure + (bool \<times> 'w Centipede)" where
  "RunBatch ext env input_vec corpus_file features_file unconditional_features_file s =
     (case ExecuteAndReportCrash ext env (binary env) input_vec s of
        Inl f \<Rightarrow> Inl f
      | Inr (success0, batch_result, s1) \<Rightarrow>
          if length input_vec \<noteq> length (results batch_result) then Inl (CheckFailed ''CHECK_EQ'')
          else
            (case RunExtraBinaries ext env input_vec (extra_binaries env) success0 s1 of
               Inl f \<Rightarrow> Inl f
             | Inr (success, s2) \<Rightarrow>
                 if \<not> success \<and> exit_on_crash env
                 then Inr (False, RequestEarlyExit 1 (LOG ExitOnCrashIsEnabled s2))
                 else
                   GradeInputs ext env corpus_file features_file unconditional_features_file
                     (zip input_vec (results batch_result)) False
                     (s2\<lparr>num_runs := num_runs s2 + of_nat (length input_vec)\<rparr>)))"

section \<open>Loading a shard (centipede.cc, LoadShard, Rerun, MergeFromOtherCorpus)\<close>

text \<open>
  The callback that \<^verbatim>\<open>LoadShard\<close> gives to \<^verbatim>\<open>ReadShard\<close>. Besides the engine's state it
  changes the two locals \<^verbatim>\<open>to_rerun\<close> and \<^verbatim>\<open>added_to_corpus\<close> of \<^verbatim>\<open>LoadShard\<close>.
\<close>

definition input_features_callback ::
  "Environment \<Rightarrow> bool \<Rightarrow> ByteArray \<times> FeatureVec
     \<Rightarrow> 'w Centipede \<times> ByteArray list \<times> nat \<Rightarrow> 'w Centipede \<times> ByteArray list \<times> nat" where
  "input_features_callback env rerun inp st =
     (let s = fst st; to_rerun = fst (snd st); added_to_corpus = snd (snd st)
      in if EarlyExitRequested s then st
         else if snd inp = [] then
           (if rerun then (s, to_rerun @ [fst inp], added_to_corpus) else st)
         else
           (let s1 = LogFeaturesAsSymbols env (snd inp) s;
                (unseen, fv) = CountUnseenAndPruneFrequentFeatures (fs s1) (snd inp)
            in if unseen then
                 (s1\<lparr>fs := IncrementFrequencies (fs s1) fv,
                     corpus := Corpus_Add (corpus s1) (fst inp) fv []\<rparr>,
                  to_rerun, added_to_corpus + 1)
               else (s1, to_rerun, added_to_corpus)))"

text \<open>
  The loop of \<^verbatim>\<open>Rerun\<close>. With \<^verbatim>\<open>batch_size\<close> zero the batch is empty and \<^verbatim>\<open>to_rerun\<close> never
  shrinks, so the loop need not end: the first argument bounds the number of iterations,
  and \<open>None\<close> says that the bound was reached.
\<close>

fun RerunLoop ::
  "nat \<Rightarrow> 'w Collaborators \<Rightarrow> Environment \<Rightarrow> string \<Rightarrow> ByteArray list \<Rightarrow> 'w Centipede
     \<Rightarrow> (failure + 'w Centipede) option" where
  "RerunLoop 0 ext env features_path to_rerun s = None"
| "RerunLoop (Suc fuel) ext env features_path to_rerun s =
     (if to_rerun = [] then Some (Inr s)
      else if EarlyExitRequested s then Some (Inr s)
      else
        (let size_of_batch = min (length to_rerun) (unat (batch_size env));
             batch = drop (length to_rerun - size_of_batch) to_rerun;
             rest = take (length to_rerun - size_of_batch) to_rerun
         in case RunBatch ext env batch None None (Some features_path) s of
              Inl f \<Rightarrow> Some (Inl f)
            | Inr (gained, s1) \<Rightarrow>
                RerunLoop fuel ext env features_path rest
                  (if gained then UpdateAndMaybeLogStats ''rerun-old'' s1 else s1)))"

definition Rerun ::
  "nat \<Rightarrow> 'w Collaborators \<Rightarrow> Environment \<Rightarrow> ByteArray list \<Rightarrow> 'w Centipede
     \<Rightarrow> (failure + 'w Centipede) option" where
  "Rerun fuel ext env to_rerun s =
     (if to_rerun = [] then Some (Inr s)
      else RerunLoop fuel ext env (MakeFeaturesPath ext env (my_shard_index env)) to_rerun
             (LOG (InputsToRerun (length to_rerun)) s))"

text \<open>
  \<^verbatim>\<open>LoadShard\<close>. \<open>env\<close> is the member \<^verbatim>\<open>env_\<close> and \<open>load_env\<close> the parameter. The two
  branches on \<^verbatim>\<open>serialize_shard_loads\<close> make the same call of \<^verbatim>\<open>ReadShard\<close>, once under a
  mutex.
\<close>

definition LoadShard ::
  "nat \<Rightarrow> 'w Collaborators \<Rightarrow> Environment \<Rightarrow> Environment \<Rightarrow> size_t \<Rightarrow> bool \<Rightarrow> 'w Centipede
     \<Rightarrow> (failure + 'w Centipede) option" where
  "LoadShard fuel ext env load_env shard_index rerun s =
     (let st = fold (input_features_callback env rerun)
                 (ReadShard ext (world s) (MakeCorpusPath ext load_env shard_index)
                    (MakeFeaturesPath ext load_env shard_index))
                 (s, [], 0);
          s1 = fst st; to_rerun = fst (snd st); added_to_corpus = snd (snd st);
          s2 = (if added_to_corpus \<noteq> 0 then UpdateAndMaybeLogStats ''load-shard'' s1 else s1)
      in Rerun fuel ext env to_rerun s2)"

text \<open>The loop of \<^verbatim>\<open>MergeFromOtherCorpus\<close> that appends the records \<open>idx..<n\<close> of the corpus.\<close>

definition AppendNewInputs :: "string \<Rightarrow> nat \<Rightarrow> nat \<Rightarrow> 'w Centipede \<Rightarrow> 'w Centipede" where
  "AppendNewInputs path idx n s =
     fold (\<lambda>i t. AppendIfOpen (Some path) (Corpus_Get (corpus t) i) t) [idx..<n] s"

definition MergeFromOtherCorpus ::
  "nat \<Rightarrow> 'w Collaborators \<Rightarrow> Environment \<Rightarrow> string \<Rightarrow> size_t \<Rightarrow> 'w Centipede
     \<Rightarrow> (failure + 'w Centipede) option" where
  "MergeFromOtherCorpus fuel ext env merge_from_dir shard_index_to_merge s =
     (let s0 = LOG (MergeFrom merge_from_dir) s;
          merge_from_env = env\<lparr>workdir := merge_from_dir\<rparr>;
          initial_corpus_size = NumActive (corpus s0)
      in case LoadShard fuel ext env merge_from_env shard_index_to_merge True s0 of
           None \<Rightarrow> None
         | Some (Inl f) \<Rightarrow> Some (Inl f)
         | Some (Inr s1) \<Rightarrow>
             (let new_corpus_size = NumActive (corpus s1)
              in if \<not> new_corpus_size \<ge> initial_corpus_size
                 then Some (Inl (CheckFailed ''CHECK_GE''))
                 else if new_corpus_size > initial_corpus_size then
                   Some (Inr (LOG (MergeNewInputsAdded (new_corpus_size - initial_corpus_size))
                     (AppendNewInputs (MakeCorpusPath ext env (my_shard_index env))
                        initial_corpus_size new_corpus_size s1)))
                 else Some (Inr s1)))"


text \<open>
  How the feature set and the corpus can evolve when every record is added because of a
  feature that is unseen at that moment. From a feature set \<open>f\<close> and a corpus \<open>c\<close>, a step
  either increments the frequencies of a feature vector and appends a record with that
  vector, one of whose features has frequency zero just before, or increments the
  frequencies of a feature vector and leaves the corpus as it is.
\<close>

inductive Admissions :: "FeatureSet \<Rightarrow> Corpus \<Rightarrow> FeatureSet \<Rightarrow> Corpus \<Rightarrow> bool" where
  Admissions_none: "Admissions f c f c"
| Admissions_admit:
    "Admissions f c f1 c1 \<Longrightarrow> list_ex (\<lambda>x. Frequency f1 x = 0) fv
       \<Longrightarrow> Admissions f c (IncrementFrequencies f1 fv) (Corpus_Add c1 input fv cmp)"
| Admissions_count:
    "Admissions f c f1 c1 \<Longrightarrow> Admissions f c (IncrementFrequencies f1 fv) c1"

section \<open>Choosing a peer shard (centipede.cc, FuzzingLoop)\<close>

text \<open>
  The periodic peer load of \<^verbatim>\<open>FuzzingLoop\<close>: its guard, and the index it computes from
  the value \<open>r\<close> of \<^verbatim>\<open>rng_()\<close> in \<^verbatim>\<open>size_t\<close> arithmetic, with the \<^verbatim>\<open>CHECK_NE\<close> that follows.
\<close>

definition LoadOtherShardDue :: "Environment \<Rightarrow> size_t \<Rightarrow> bool" where
  "LoadOtherShardDue env batch_index =
     (load_other_shard_frequency env \<noteq> 0 \<and> batch_index \<noteq> 0 \<and>
      batch_index mod load_other_shard_frequency env = 0 \<and> total_shards env > 1)"

definition other_shard_index :: "Environment \<Rightarrow> size_t \<Rightarrow> size_t" where
  "other_shard_index env r =
     (let rand = r mod (total_shards env - 1)
      in (my_shard_index env + 1 + rand) mod total_shards env)"

definition ChooseOtherShard :: "Environment \<Rightarrow> size_t \<Rightarrow> failure + size_t" where
  "ChooseOtherShard env r =
     (if other_shard_index env r = my_shard_index env then Inl (CheckFailed ''CHECK_NE'')
      else Inr (other_shard_index env r))"

section \<open>Counting the crash reports\<close>

text \<open>
  The crash reports in the log: \<^verbatim>\<open>ReportCrash\<close> writes one "Batch execution failed" message
  for each report that it does not suppress.
\<close>

fun is_crash_report :: "log_event \<Rightarrow> bool" where
  "is_crash_report (BatchExecutionFailed n b e f k l) = True"
| "is_crash_report ev = False"

definition crash_reports_logged :: "'w Centipede \<Rightarrow> nat" where
  "crash_reports_logged s = length (filter is_crash_report (log_lines s))"

section \<open>Concrete inputs\<close>

text \<open>Small configurations on which the theorems below are evaluated.\<close>

definition mutator100 :: "unit ByteArrayMutator" where
  "mutator100 = \<lparr>size_alignment = 4, max_len = 100, rng = (), knobs = [], dictionary = [],
                  cmp_dictionary = []\<rparr>"

definition env35 :: Environment where
  "env35 = \<lparr>binary = ''target'', extra_binaries = [], workdir = ''wd'', corpus_dir = [],
     input_filter = [], my_shard_index = 3, total_shards = 5, batch_size = 2,
     max_num_crash_reports = 5, load_other_shard_frequency = 10, exit_on_crash = False,
     use_pcpair_features = False, LogFeaturesInThisShard = False\<rparr>"

text \<open>
  A generator that counts, a primitive that always mutates (it puts a zero byte in
  front), one that never does, and a mutator whose knobs give the first of two primitives
  the weight 0 and the second the weight 1.
\<close>

definition counter_rng :: "nat \<Rightarrow> 64 word \<times> nat" where
  "counter_rng n = (of_nat n, Suc n)"

definition always_mutates :: "nat Fn" where
  "always_mutates m bs = (True, m, 0 # bs)"

definition never_mutates :: "nat Fn" where
  "never_mutates m bs = (False, m, bs)"

definition mutator01 :: "nat ByteArrayMutator" where
  "mutator01 = \<lparr>size_alignment = 1, max_len = SIZE_MAX, rng = 0, knobs = [0, 1],
                 dictionary = [], cmp_dictionary = []\<rparr>"

text \<open>
  A toy target: the features of an input are its bytes, it crashes on the input \<open>[99]\<close>
  and it counts its executions. Its shard under \<^verbatim>\<open>wd\<close> holds three inputs, the third
  without features.
\<close>

definition toy_features :: "ByteArray \<Rightarrow> FeatureVec" where
  "toy_features b = map ucast b"

definition toy_crashes :: "ByteArray \<Rightarrow> bool" where
  "toy_crashes b = (b = [99])"

definition toy_Execute :: "nat \<Rightarrow> string \<Rightarrow> ByteArray list \<Rightarrow> bool \<times> BatchResult \<times> nat" where
  "toy_Execute w bin inputs =
     (\<not> list_ex toy_crashes inputs,
      \<lparr>results = map (\<lambda>b. \<lparr>mutable_features = toy_features b, result_cmp_args = []\<rparr>) inputs,
       exit_code = (if list_ex toy_crashes inputs then 1 else 0),
       failure_description = (if list_ex toy_crashes inputs then ''crash'' else []),
       batch_log = [],
       num_outputs_read = of_nat (length (takeWhile (\<lambda>b. \<not> toy_crashes b) inputs))\<rparr>,
      Suc w)"

definition toy :: "nat Collaborators" where
  "toy = \<lparr>Execute = toy_Execute, DummyValidInput = [0], function_filter = (\<lambda>fv. True),
     input_filter_cmd = (\<lambda>w b. (0, w)),
     Hash = (\<lambda>b. if b = [99] then ''crasher'' else ''input''),
     PackFeaturesAndHash = (\<lambda>b fv. b),
     ReadShard = (\<lambda>w cp fp. if cp = ''wd/corpus'' then [([1, 2], [1, 2]), ([1], [1]), ([3], [])] else []),
     k8bitCounters_Contains = (\<lambda>f. False),
     Convert8bitCounterFeatureToPcIndex = (\<lambda>f. f),
     ConvertPcPairToNumber = (\<lambda>a b n. a * n + b),
     kPCPair_ConvertToMe = (\<lambda>x. x),
     MakeCorpusPath = (\<lambda>e i. workdir e @ ''/corpus''),
     MakeFeaturesPath = (\<lambda>e i. workdir e @ ''/features''),
     fopen_ok = (\<lambda>w p. True),
     pc_table_size = 0\<rparr>"

definition env_exit :: Environment where
  "env_exit = env35\<lparr>exit_on_crash := True, max_num_crash_reports := 1\<rparr>"

definition state0 :: "nat Centipede" where
  "state0 = \<lparr>fs = \<lparr>frequency_threshold = 100, frequencies = (\<lambda>f. 0)\<rparr>,
     corpus = \<lparr>records = [], num_pruned = 0\<rparr>, num_runs = 0, num_crash_reports = 0,
     requested_exit = None, log_lines = [], blob_files = (\<lambda>p. []),
     local_files = (\<lambda>p. None), remote_files = (\<lambda>p. None), remote_dirs = [],
     world = 0, executions = []\<rparr>"



definition crash_result :: BatchResult where
  "crash_result = \<lparr>results = replicate 3 \<lparr>mutable_features = [], result_cmp_args = []\<rparr>,
     exit_code = 1, failure_description = ''crash'', batch_log = [], num_outputs_read = 1\<rparr>"

text \<open>
  An environment that allows no crash report, and the state that the toy target is in after
  its first failed batch under \<^verbatim>\<open>env_exit\<close>, which allows one report.
\<close>

definition env_no_reports :: Environment where
  "env_no_reports = env35\<lparr>max_num_crash_reports := 0\<rparr>"

definition state_after_report :: "nat Centipede" where
  "state_after_report =
     (case ExecuteAndReportCrash toy env_exit ''target'' [[99]] state0 of
        Inr (ok, br, s) \<Rightarrow> s
      | Inl f \<Rightarrow> state0)"

section \<open>Theorems\<close>

subsection \<open>The setters of the mutator\<close>

text \<open>
  Claim C6 at a zero divisor. The claim lets each setter return false or true. With the
  finite \<^verbatim>\<open>max_len = 100\<close>, \<^verbatim>\<open>set_size_alignment(0)\<close> computes \<^verbatim>\<open>max_len_ % 0\<close>: it returns
  neither, it divides by zero. On a mutator with the defaults of the class (alignment 1,
  \<^verbatim>\<open>max_len = SIZE_MAX\<close>) \<^verbatim>\<open>set_size_alignment(0)\<close> is accepted and stores the alignment 0,
  and the next \<^verbatim>\<open>set_max_len(8)\<close> divides by zero.
\<close>

theorem C6_zero_alignment_divides_by_zero:
  "max_len mutator100 = 100 \<and>
   set_size_alignment 0 mutator100 = Inl DivisionByZero \<and>
   size_alignment mutator01 = 1 \<and> max_len mutator01 = SIZE_MAX \<and>
   set_size_alignment 0 mutator01 = Inr (True, mutator01\<lparr>size_alignment := 0\<rparr>) \<and>
   set_max_len 8 (mutator01\<lparr>size_alignment := 0\<rparr>) = Inl DivisionByZero"
  by (simp add: set_size_alignment_def set_max_len_def mutator100_def mutator01_def SIZE_MAX_def)

text \<open>
  With a divisor that is not zero the setters do what their comments say:
  \<^verbatim>\<open>set_size_alignment(a)\<close> returns false and leaves the mutator as it is when \<^verbatim>\<open>max_len\<close> is
  finite (not \<^verbatim>\<open>SIZE_MAX\<close>) and \<^verbatim>\<open>max_len mod a\<close> is not zero, in particular for \<open>a = 7\<close>
  and \<^verbatim>\<open>max_len = 100\<close>; \<^verbatim>\<open>set_max_len(m)\<close> returns false when the finite \<open>m\<close> is not a
  multiple of the current alignment; otherwise each setter stores the new value and
  returns true.
\<close>

lemma setters_nonzero_divisor:
  "(max_len m \<noteq> SIZE_MAX \<and> a \<noteq> 0 \<and> max_len m mod a \<noteq> 0
      \<longrightarrow> set_size_alignment a m = Inr (False, m)) \<and>
   (max_len m = SIZE_MAX \<or> (a \<noteq> 0 \<and> max_len m mod a = 0)
      \<longrightarrow> set_size_alignment a m = Inr (True, m\<lparr>size_alignment := a\<rparr>)) \<and>
   (max_len m = 100 \<longrightarrow> set_size_alignment 7 m = Inr (False, m)) \<and>
   (ml \<noteq> SIZE_MAX \<and> size_alignment m \<noteq> 0 \<and> ml mod size_alignment m \<noteq> 0
      \<longrightarrow> set_max_len ml m = Inr (False, m)) \<and>
   (ml = SIZE_MAX \<or> (size_alignment m \<noteq> 0 \<and> ml mod size_alignment m = 0)
      \<longrightarrow> set_max_len ml m = Inr (True, m\<lparr>max_len := ml\<rparr>))"
  by (simp add: set_size_alignment_def set_max_len_def SIZE_MAX_def)

lemma setters_nonzero_divisor_example:
  "set_size_alignment 7 mutator100 = Inr (False, mutator100) \<and>
   set_size_alignment 10 mutator100 = Inr (True, mutator100\<lparr>size_alignment := 10\<rparr>) \<and>
   set_max_len 30 mutator100 = Inr (False, mutator100) \<and>
   set_max_len 32 mutator100 = Inr (True, mutator100\<lparr>max_len := 32\<rparr>) \<and>
   set_max_len SIZE_MAX mutator100 = Inr (True, mutator100\<lparr>max_len := SIZE_MAX\<rparr>)"
  using setters_nonzero_divisor [of mutator100 7 30] setters_nonzero_divisor [of mutator100 10 32]
    setters_nonzero_divisor [of mutator100 1 SIZE_MAX]
  by (simp add: mutator100_def SIZE_MAX_def)

subsection \<open>The peer shard\<close>

lemma unat_rand:
  assumes "1 < (N::size_t)"
  shows "unat (r mod (N - 1)) < unat N - 1"
proof -
  have n1: "unat (N - 1) = unat N - 1"
    using assms(1) by (intro unat_minus_one) auto
  have "0 < unat (N - 1)" using assms n1 by (simp add: word_less_nat_alt)
  then have "unat (r mod (N - 1)) < unat (N - 1)"
    by (simp add: unat_mod)
  then show ?thesis using n1 by simp
qed

text \<open>
  The arithmetic behind the choice, on natural numbers: the sum may wrap around at
  \<open>2 ^ 64\<close>, and the index it gives still differs from \<open>m\<close>.
\<close>

lemma wrapped_sum_differs:
  fixes m k n :: nat
  assumes "m < n" "k < n - 1" "n < 2 ^ 64"
  shows "((m + 1 + k) mod 2 ^ 64) mod n \<noteq> m"
proof (cases "m + 1 + k < 2 ^ 64")
  case True
  then have e: "(m + 1 + k) mod 2 ^ 64 = m + 1 + k" by simp
  show ?thesis
  proof
    assume "((m + 1 + k) mod 2 ^ 64) mod n = m"
    then have h: "(m + 1 + k) mod n = m" using e by simp
    show False
    proof (cases "m + 1 + k < n")
      case True
      then show False using h by simp
    next
      case False
      then have "(m + 1 + k) mod n = (m + 1 + k - n) mod n"
        by (simp add: le_mod_geq)
      moreover have "m + 1 + k - n < n" using assms by linarith
      ultimately have "(m + 1 + k) mod n = m + 1 + k - n" by simp
      then show False using h False assms by linarith
    qed
  qed
next
  case False
  then have "(m + 1 + k) mod 2 ^ 64 = m + 1 + k - 2 ^ 64"
    using assms by (simp add: mod_if)
  moreover have "m + 1 + k - 2 ^ 64 < n" using assms False by linarith
  ultimately have "((m + 1 + k) mod 2 ^ 64) mod n = m + 1 + k - 2 ^ 64" by simp
  then show ?thesis using assms False by linarith
qed

lemma unat_other_shard_index:
  "unat (other_shard_index env r) =
     ((unat (my_shard_index env) + 1 + unat (r mod (total_shards env - 1))) mod 2 ^ 64)
       mod unat (total_shards env)"
  by (simp add: other_shard_index_def Let_def unat_mod unat_word_ariths mod_simps)

lemma other_shard_index_differs:
  assumes "1 < total_shards env" "my_shard_index env < total_shards env"
  shows "other_shard_index env r \<noteq> my_shard_index env"
proof -
  let ?N = "total_shards env" and ?my = "my_shard_index env"
  let ?k = "unat (r mod (?N - 1))"
  have k: "?k < unat ?N - 1" using assms(1) by (rule unat_rand)
  have m: "unat ?my < unat ?N" using assms(2) by (simp add: word_less_nat_alt)
  have n: "unat ?N < 2 ^ 64" using unsigned_less [of ?N] by simp
  have "unat (other_shard_index env r) \<noteq> unat ?my"
    unfolding unat_other_shard_index by (rule wrapped_sum_differs [OF m k n])
  then show ?thesis by auto
qed

lemma other_shard_index_nat:
  assumes "1 < total_shards env" "my_shard_index env < total_shards env"
    "unat (total_shards env) \<le> 2 ^ 63"
  shows "unat (other_shard_index env r) =
    (unat (my_shard_index env) + 1 + unat r mod (unat (total_shards env) - 1))
       mod unat (total_shards env)"
proof -
  let ?N = "total_shards env" and ?my = "my_shard_index env"
  let ?k = "unat (r mod (?N - 1))"
  have k: "?k < unat ?N - 1" using assms(1) by (rule unat_rand)
  have m: "unat ?my < unat ?N" using assms(2) by (simp add: word_less_nat_alt)
  have n1: "unat (?N - 1) = unat ?N - 1"
    using assms(1) by (intro unat_minus_one) auto
  have kk: "?k = unat r mod (unat ?N - 1)" by (simp add: unat_mod n1)
  have p: "(2::nat) ^ 64 = 2 * 2 ^ 63" by simp
  have "unat ?my + 1 + ?k < 2 ^ 64" using k m assms(3) p by linarith
  then have "(unat ?my + 1 + ?k) mod 2 ^ 64 = unat ?my + 1 + ?k" by simp
  then show ?thesis unfolding unat_other_shard_index using kk by simp
qed

text \<open>
  Claim C3. For every shard count \<open>N > 1\<close>, every own index \<open>my < N\<close> and every value
  \<open>r\<close> of the generator, the peer index is \<open>(my + 1 + (r mod (N - 1))) mod N\<close> in
  \<^verbatim>\<open>size_t\<close> arithmetic and differs from \<open>my\<close>, so the \<^verbatim>\<open>CHECK_NE\<close> passes. When \<open>N\<close> is at
  most \<open>2 ^ 63\<close> the sum does not wrap around and the same formula holds on the natural
  numbers.
\<close>

theorem C3_other_shard_index:
  assumes "1 < total_shards env" "my_shard_index env < total_shards env"
  shows "other_shard_index env r =
           (my_shard_index env + 1 + r mod (total_shards env - 1)) mod total_shards env \<and>
         other_shard_index env r \<noteq> my_shard_index env \<and>
         ChooseOtherShard env r = Inr (other_shard_index env r) \<and>
         (unat (total_shards env) \<le> 2 ^ 63 \<longrightarrow>
            unat (other_shard_index env r) =
              (unat (my_shard_index env) + 1 + unat r mod (unat (total_shards env) - 1))
                 mod unat (total_shards env))"
  using other_shard_index_differs [OF assms] other_shard_index_nat [OF assms]
  by (simp add: ChooseOtherShard_def other_shard_index_def Let_def)

theorem C3_other_shard_index_witness:
  "(1::size_t) < 5 \<and> (3::size_t) < 5 \<and> other_shard_index env35 2 = 1 \<and>
   other_shard_index env35 2 \<noteq> my_shard_index env35 \<and>
   ChooseOtherShard env35 2 = Inr 1 \<and>
   unat (other_shard_index env35 2) = (3 + 1 + 2 mod (5 - 1)) mod 5"
  using C3_other_shard_index [of env35 2]
  by (simp add: env35_def)

subsection \<open>The order of dictionary entries\<close>

lemma memcmp_lexord:
  "length p = length q \<Longrightarrow>
     \<exists>c. memcmp p q (length p) = Inr c \<and> (c < 0 \<longleftrightarrow> (p, q) \<in> lexord {(a, b). a < b})"
proof (induction p q rule: list_induct2)
  case Nil
  then show ?case by simp
next
  case (Cons x xs y ys)
  then show ?case by (auto simp: not_less)
qed

lemma zeros_before_longer:
  "a = length y + b \<Longrightarrow> sx < sy \<Longrightarrow>
     (replicate a 0 @ [sx], y @ replicate b 0 @ [sy]) \<in> lexord {(a, b :: uint8_t). a < b}"
proof (induction y arbitrary: a)
  case Nil
  then show ?case by (simp add: lexord_same_pref_iff)
next
  case (Cons y0 ys)
  then obtain a' where a: "a = Suc a'" "a' = length ys + b" by (cases a) auto
  have "y0 = 0 \<or> 0 < y0" using word_neq_0_conv by blast 
  then show ?case using Cons.IH [OF a(2) Cons.prems(2)] a(1) by auto
qed

lemma longer_not_before_zeros:
  "b = length x + a \<Longrightarrow> \<not> sx < sy \<Longrightarrow>
     (x @ replicate a 0 @ [sx], replicate b 0 @ [sy]) \<notin> lexord {(a, b :: uint8_t). a < b}"
proof (induction x arbitrary: b)
  case Nil
  then show ?case by (simp add: lexord_same_pref_iff)
next
  case (Cons x0 xs)
  then obtain b' where b: "b = Suc b'" "b' = length xs + a" by (cases b) auto
  show ?case using Cons.IH [OF b(2) Cons.prems(2)] b(1) by auto
qed

lemma padded_lexord:
  "length x + a = length y + b \<Longrightarrow> (sx < sy \<longleftrightarrow> length x < length y) \<Longrightarrow>
     (x @ replicate a 0 @ [sx], y @ replicate b 0 @ [sy]) \<in> lexord {(a, b :: uint8_t). a < b}
       \<longleftrightarrow> (x, y) \<in> lexord {(a, b). a < b}"
proof (induction x y rule: list_induct2')
  case 1
  then show ?case by (simp add: lexord_same_pref_iff)
next
  case (2 x xs)
  then show ?case using longer_not_before_zeros [of b "x # xs" a sx sy] by simp
next
  case (3 y ys)
  then show ?case using zeros_before_longer [of a "y # ys" b sx sy] by simp
next
  case (4 x xs y ys)
  then show ?case by auto
qed

lemma unat_small_length: "n \<le> 15 \<Longrightarrow> unat (of_nat n :: uint8_t) = n"
  by (simp add: unat_of_nat)

lemma DictEntry_ctor_small:
  "length x \<le> 15 \<Longrightarrow>
     DictEntry_ctor x = Inr \<lparr>entry_bytes = x @ replicate (15 - length x) 0,
                             entry_size = of_nat (length x)\<rparr>"
  by (simp add: DictEntry_ctor_def kMaxEntrySize_def Let_def word_less_nat_alt
      unat_small_length)

lemma DictEntry_less_lexord:
  assumes "length x \<le> 15" "length y \<le> 15"
  shows "DictEntry_less
           \<lparr>entry_bytes = x @ replicate (15 - length x) 0, entry_size = of_nat (length x)\<rparr>
           \<lparr>entry_bytes = y @ replicate (15 - length y) 0, entry_size = of_nat (length y)\<rparr>
         = Inr ((x, y) \<in> lexord {(a, b). a < b})"
proof -
  let ?p = "x @ replicate (15 - length x) 0 @ [of_nat (length x) :: uint8_t]"
  let ?q = "y @ replicate (15 - length y) 0 @ [of_nat (length y) :: uint8_t]"
  have len: "length ?p = 16" "length ?q = 16" using assms by simp_all
  have sz: "(of_nat (length x) :: uint8_t) < of_nat (length y) \<longleftrightarrow> length x < length y"
    using assms by (simp add: word_less_nat_alt unat_small_length)
  have pad: "(?p, ?q) \<in> lexord {(a, b). a < b} \<longleftrightarrow> (x, y) \<in> lexord {(a, b). a < b}"
    by (rule padded_lexord) (use assms sz in simp_all)
  obtain c where c: "memcmp ?p ?q (length ?p) = Inr c"
      "c < 0 \<longleftrightarrow> (?p, ?q) \<in> lexord {(a, b). a < b}"
    using memcmp_lexord [of ?p ?q] len by auto
  show ?thesis
    using c pad len by (simp add: DictEntry_less_def object_representation_def sizeof_DictEntry_def)
qed

text \<open>
  Claim C9. For all byte strings \<open>x\<close> and \<open>y\<close> of at most 15 bytes, the two entries are
  constructed, and \<^verbatim>\<open>operator<\<close> (\<^verbatim>\<open>memcmp\<close> over the zero-padded buffer followed by the size
  byte) orders the entry of \<open>x\<close> before the entry of \<open>y\<close> exactly when \<open>x\<close> is smaller
  than \<open>y\<close> at the first byte where they differ, or \<open>x\<close> is a proper prefix of \<open>y\<close>
  (equal up to the shorter length, and \<open>x\<close> shorter).
\<close>

theorem C9_DictEntry_less_lexicographic:
  assumes "length x \<le> 15" "length y \<le> 15"
  shows "\<exists>ex ey. DictEntry_ctor x = Inr ex \<and> DictEntry_ctor y = Inr ey \<and>
           DictEntry_less ex ey =
             Inr ((\<exists>u a b v w. a < b \<and> x = u @ a # v \<and> y = u @ b # w) \<or>
                  (\<exists>a v. y = x @ a # v))"
proof -
  have "(x, y) \<in> lexord {(a, b). a < b} \<longleftrightarrow>
          ((\<exists>u a b v w. a < b \<and> x = u @ a # v \<and> y = u @ b # w) \<or> (\<exists>a v. y = x @ a # v))"
    by (auto simp: lexord_def)
  then show ?thesis
    using DictEntry_ctor_small [OF assms(1)] DictEntry_ctor_small [OF assms(2)]
      DictEntry_less_lexord [OF assms] by simp
qed

theorem C9_DictEntry_less_lexicographic_witness:
  "length [1, 2 :: uint8_t] \<le> 15 \<and> length [1, 2, 0 :: uint8_t] \<le> 15 \<and>
   (\<exists>ex ey. DictEntry_ctor [1, 2] = Inr ex \<and> DictEntry_ctor [1, 2, 0] = Inr ey \<and>
      DictEntry_less ex ey = Inr True)"
proof -
  have "\<exists>a v. [1, 2, 0 :: uint8_t] = [1, 2] @ a # v" by simp
  then show ?thesis using C9_DictEntry_less_lexicographic [of "[1, 2]" "[1, 2, 0]"] by simp
qed

subsection \<open>The dispatcher of the mutator\<close>

declare ApplyOneOf_from.simps [simp del] ApplyOneOf_attempts.simps [simp del]

lemma attempts_done:
  "\<not> (iter < 10 \<and> fn \<noteq> []) \<Longrightarrow> ApplyOneOf_attempts nxt fn iter m bs = []"
  by (subst ApplyOneOf_attempts.simps) auto

lemma attempts_step:
  "iter < 10 \<Longrightarrow> fn \<noteq> [] \<Longrightarrow> nxt (rng m) = (r, g) \<Longrightarrow>
   (fn ! (unat r mod length fn)) (m\<lparr>rng := g\<rparr>) bs = (ok, m', bs') \<Longrightarrow>
     ApplyOneOf_attempts nxt fn iter m bs =
       (unat r mod length fn, ok) #
       (if ok then [] else ApplyOneOf_attempts nxt fn (iter + 1) m' bs')"
  by (subst ApplyOneOf_attempts.simps) simp

lemma from_done:
  "\<not> iter < 10 \<Longrightarrow> ApplyOneOf_from nxt fn iter m bs = Inr (False, m, bs)"
  by (subst ApplyOneOf_from.simps) simp

lemma from_step:
  "iter < 10 \<Longrightarrow> fn \<noteq> [] \<Longrightarrow> nxt (rng m) = (r, g) \<Longrightarrow>
   (fn ! (unat r mod length fn)) (m\<lparr>rng := g\<rparr>) bs = (ok, m', bs') \<Longrightarrow>
     ApplyOneOf_from nxt fn iter m bs =
       (if ok then Inr (True, m', bs') else ApplyOneOf_from nxt fn (iter + 1) m' bs')"
  by (subst ApplyOneOf_from.simps) simp

lemma attempts_length:
  "length (ApplyOneOf_attempts nxt fn iter m bs) \<le> 10 - iter"
proof (induction k \<equiv> "10 - iter" arbitrary: iter m bs)
  case 0
  then show ?case by (simp add: attempts_done)
next
  case (Suc k)
  show ?case
  proof (cases "fn = []")
    case True
    then show ?thesis by (simp add: attempts_done)
  next
    case False
    obtain r g where rg: "nxt (rng m) = (r, g)" by (cases "nxt (rng m)")
    obtain ok m' bs' where p: "(fn ! (unat r mod length fn)) (m\<lparr>rng := g\<rparr>) bs = (ok, m', bs')"
      by (cases "(fn ! (unat r mod length fn)) (m\<lparr>rng := g\<rparr>) bs")
    have lt: "iter < 10" and k: "k = 10 - (iter + 1)" using Suc.hyps(2) by auto
    show ?thesis
      using Suc.hyps(1) [OF k, of m' bs'] lt
      by (auto simp add: attempts_step [where nxt = nxt, OF lt False rg p])
  qed
qed

lemma attempts_indices:
  "a \<in> set (ApplyOneOf_attempts nxt fn iter m bs) \<Longrightarrow> fst a < length fn"
proof (induction k \<equiv> "10 - iter" arbitrary: iter m bs)
  case 0
  then show ?case by (simp add: attempts_done)
next
  case (Suc k)
  have fn: "fn \<noteq> []" using Suc.prems by (auto simp: attempts_done)
  obtain r g where rg: "nxt (rng m) = (r, g)" by (cases "nxt (rng m)")
  obtain ok m' bs' where p: "(fn ! (unat r mod length fn)) (m\<lparr>rng := g\<rparr>) bs = (ok, m', bs')"
    by (cases "(fn ! (unat r mod length fn)) (m\<lparr>rng := g\<rparr>) bs")
  have lt: "iter < 10" and k: "k = 10 - (iter + 1)" using Suc.hyps(2) by auto
  show ?case
    using Suc.hyps(1) [OF k, of m' bs'] Suc.prems fn
    by (auto simp: attempts_step [where nxt = nxt, OF lt fn rg p] split: if_splits)
qed

lemma attempts_first:
  assumes "iter < 10" "fn \<noteq> []"
  shows "ApplyOneOf_attempts nxt fn iter m bs \<noteq> [] \<and>
     fst (hd (ApplyOneOf_attempts nxt fn iter m bs)) = unat (fst (nxt (rng m))) mod length fn"
proof -
  obtain r g where rg: "nxt (rng m) = (r, g)" by (cases "nxt (rng m)")
  obtain ok m' bs' where p: "(fn ! (unat r mod length fn)) (m\<lparr>rng := g\<rparr>) bs = (ok, m', bs')"
    by (cases "(fn ! (unat r mod length fn)) (m\<lparr>rng := g\<rparr>) bs")
  show ?thesis by (simp add: attempts_step [where nxt = nxt, OF assms rg p] rg)
qed

lemma attempts_fail_before_last:
  "a \<in> set (butlast (ApplyOneOf_attempts nxt fn iter m bs)) \<Longrightarrow> \<not> snd a"
proof (induction k \<equiv> "10 - iter" arbitrary: iter m bs)
  case 0
  then show ?case by (simp add: attempts_done)
next
  case (Suc k)
  have fn: "fn \<noteq> []" using Suc.prems by (auto simp: attempts_done)
  obtain r g where rg: "nxt (rng m) = (r, g)" by (cases "nxt (rng m)")
  obtain ok m' bs' where p: "(fn ! (unat r mod length fn)) (m\<lparr>rng := g\<rparr>) bs = (ok, m', bs')"
    by (cases "(fn ! (unat r mod length fn)) (m\<lparr>rng := g\<rparr>) bs")
  have lt: "iter < 10" and k: "k = 10 - (iter + 1)" using Suc.hyps(2) by auto
  show ?case
    using Suc.hyps(1) [OF k, of m' bs'] Suc.prems fn
    by (auto simp: attempts_step [where nxt = nxt, OF lt fn rg p] split: if_splits)
qed

lemma attempts_all_fail_length:
  "fn \<noteq> [] \<Longrightarrow> iter \<le> 10 \<Longrightarrow>
   ApplyOneOf_attempts nxt fn iter m bs = [] \<or> \<not> snd (last (ApplyOneOf_attempts nxt fn iter m bs))
     \<Longrightarrow> length (ApplyOneOf_attempts nxt fn iter m bs) = 10 - iter"
proof (induction k \<equiv> "10 - iter" arbitrary: iter m bs)
  case 0
  then show ?case by (simp add: attempts_done)
next
  case (Suc k)
  obtain r g where rg: "nxt (rng m) = (r, g)" by (cases "nxt (rng m)")
  obtain ok m' bs' where p: "(fn ! (unat r mod length fn)) (m\<lparr>rng := g\<rparr>) bs = (ok, m', bs')"
    by (cases "(fn ! (unat r mod length fn)) (m\<lparr>rng := g\<rparr>) bs")
  have lt: "iter < 10" and k: "k = 10 - (iter + 1)" using Suc.hyps(2) by auto
  show ?case
    using Suc.hyps(1) [OF k Suc.prems(1), of m' bs'] Suc.prems lt
    by (auto simp: attempts_step [where nxt = nxt, OF lt Suc.prems(1) rg p] split: if_splits)
qed

lemma from_result:
  "fn \<noteq> [] \<Longrightarrow>
     \<exists>m' bs'. ApplyOneOf_from nxt fn iter m bs =
        Inr (ApplyOneOf_attempts nxt fn iter m bs \<noteq> [] \<and>
             snd (last (ApplyOneOf_attempts nxt fn iter m bs)), m', bs')"
proof (induction k \<equiv> "10 - iter" arbitrary: iter m bs)
  case 0
  then show ?case by (simp add: attempts_done from_done)
next
  case (Suc k)
  obtain r g where rg: "nxt (rng m) = (r, g)" by (cases "nxt (rng m)")
  obtain ok m' bs' where p: "(fn ! (unat r mod length fn)) (m\<lparr>rng := g\<rparr>) bs = (ok, m', bs')"
    by (cases "(fn ! (unat r mod length fn)) (m\<lparr>rng := g\<rparr>) bs")
  have lt: "iter < 10" and k: "k = 10 - (iter + 1)" using Suc.hyps(2) by auto
  show ?case
    using Suc.hyps(1) [OF k Suc.prems(1), of m' bs']
    by (auto simp: attempts_step [where nxt = nxt, OF lt Suc.prems(1) rg p] from_step [where nxt = nxt, OF lt Suc.prems(1) rg p])
qed

text \<open>
  The round as a sequence of states: \<open>ms\<close> and \<open>bss\<close> hold the mutator and the data before
  the first attempt and after each attempt. Attempt \<open>j\<close> starts from \<open>ms ! j\<close> and \<open>bss ! j\<close>,
  draws a value from the generator as that state has it, applies the primitive at the index
  \<^verbatim>\<open>rng_() % kArraySize\<close> and leaves \<open>ms ! Suc j\<close> and \<open>bss ! Suc j\<close>. The loop started at
  \<open>iter\<close> returns what the last attempt returned, with the last states.
\<close>

lemma from_trace:
  assumes "fn \<noteq> []"
  shows "\<exists>ms bss.
     length ms = Suc (length (ApplyOneOf_attempts nxt fn iter m bs)) \<and>
     length bss = Suc (length (ApplyOneOf_attempts nxt fn iter m bs)) \<and>
     ms ! 0 = m \<and> bss ! 0 = bs \<and>
     (\<forall>j < length (ApplyOneOf_attempts nxt fn iter m bs).
        (let r = fst (nxt (rng (ms ! j))); g = snd (nxt (rng (ms ! j)));
             mut_idx = unat r mod length fn;
             res = (fn ! mut_idx) ((ms ! j)\<lparr>rng := g\<rparr>) (bss ! j)
         in ApplyOneOf_attempts nxt fn iter m bs ! j = (mut_idx, fst res) \<and>
            ms ! Suc j = fst (snd res) \<and> bss ! Suc j = snd (snd res))) \<and>
     ApplyOneOf_from nxt fn iter m bs =
       Inr (ApplyOneOf_attempts nxt fn iter m bs \<noteq> [] \<and>
            snd (last (ApplyOneOf_attempts nxt fn iter m bs)), last ms, last bss)"
proof (induction k \<equiv> "10 - iter" arbitrary: iter m bs)
  case 0
  then have d: "ApplyOneOf_attempts nxt fn iter m bs = []"
    and f: "ApplyOneOf_from nxt fn iter m bs = Inr (False, m, bs)"
    by (simp_all add: attempts_done from_done)
  show ?case
    unfolding d f by (rule exI [of _ "[m]"], rule exI [of _ "[bs]"]) simp
next
  case (Suc k)
  obtain r g where rg: "nxt (rng m) = (r, g)" by (cases "nxt (rng m)")
  obtain ok m' bs' where p: "(fn ! (unat r mod length fn)) (m\<lparr>rng := g\<rparr>) bs = (ok, m', bs')"
    by (cases "(fn ! (unat r mod length fn)) (m\<lparr>rng := g\<rparr>) bs")
  have lt: "iter < 10" and k: "k = 10 - (iter + 1)" using Suc.hyps(2) by auto
  note a = attempts_step [where nxt = nxt, OF lt assms rg p]
  note f = from_step [where nxt = nxt, OF lt assms rg p]
  show ?case
  proof (cases ok)
    case True
    show ?thesis
      unfolding a f using True rg p
      by (intro exI [of _ "[m, m']"] exI [of _ "[bs, bs']"]) (simp add: Let_def)
  next
    case False
    let ?att = "ApplyOneOf_attempts nxt fn (iter + 1) m' bs'"
    from Suc.hyps(1) [OF k, of m' bs'] obtain ms bss where
      l: "length ms = Suc (length ?att)" "length bss = Suc (length ?att)"
      and z: "ms ! 0 = m'" "bss ! 0 = bs'"
      and st: "\<And>j. j < length ?att \<Longrightarrow>
        (let r = fst (nxt (rng (ms ! j))); g = snd (nxt (rng (ms ! j)));
             mut_idx = unat r mod length fn;
             res = (fn ! mut_idx) ((ms ! j)\<lparr>rng := g\<rparr>) (bss ! j)
         in ?att ! j = (mut_idx, fst res) \<and>
            ms ! Suc j = fst (snd res) \<and> bss ! Suc j = snd (snd res))"
      and res: "ApplyOneOf_from nxt fn (iter + 1) m' bs' =
        Inr (?att \<noteq> [] \<and> snd (last ?att), last ms, last bss)"
      by blast
    have ne: "ms \<noteq> []" "bss \<noteq> []" using l by auto
    have step: "(let r' = fst (nxt (rng ((m # ms) ! j))); g = snd (nxt (rng ((m # ms) ! j)));
             mut_idx = unat r' mod length fn;
             res = (fn ! mut_idx) (((m # ms) ! j)\<lparr>rng := g\<rparr>) ((bs # bss) ! j)
         in ((unat r mod length fn, ok) # ?att) ! j = (mut_idx, fst res) \<and>
            (m # ms) ! Suc j = fst (snd res) \<and> (bs # bss) ! Suc j = snd (snd res))"
      if "j < Suc (length ?att)" for j
    proof (cases j)
      case 0
      then show ?thesis using rg p z by (simp add: Let_def)
    next
      case (Suc i)
      then have "i < length ?att" using that by simp
      from st [OF this] show ?thesis using Suc by simp
    qed
    have a': "ApplyOneOf_attempts nxt fn iter m bs = (unat r mod length fn, ok) # ?att"
      using a False by simp
    have f': "ApplyOneOf_from nxt fn iter m bs =
        Inr (?att \<noteq> [] \<and> snd (last ?att), last ms, last bss)"
      using f False res by simp
    have la: "((unat r mod length fn, ok) # ?att \<noteq> [] \<and>
        snd (last ((unat r mod length fn, ok) # ?att))) = (?att \<noteq> [] \<and> snd (last ?att))"
      using False by simp
    have lm: "last (m # ms) = last ms" "last (bs # bss) = last bss"
      using ne by simp_all
    show ?thesis
      unfolding a' f' la lm
      apply (rule exI [of _ "m # ms"], rule exI [of _ "bs # bss"])
      apply (intro conjI)
      subgoal using l by simp
      subgoal using l by simp
      subgoal by simp
      subgoal by simp
      subgoal by (intro allI impI, rule step) simp
      subgoal using lm by simp
      done
  qed
qed

text \<open>
  Claim C2, as the code has it. With a non-empty array of primitives, \<^verbatim>\<open>ApplyOneOf\<close>
  returns. Every attempt of the round, the first one and each retry, draws a value \<open>r\<close>
  from the generator in the state the attempt before it left, applies the primitive at
  the index \<^verbatim>\<open>r % kArraySize\<close>, whatever the knobs are, to the data the attempt before it
  left, and records that index and what the primitive returned. It attempts at least one
  and at most 10 primitives; every index attempted is one of the array; every attempt but
  the last returned false; the result is what the last attempt returned, together with the
  mutator and the data it left; and when the result is false, 10 primitives were attempted
  and all of them returned false.
\<close>

theorem C2_ApplyOneOf_retries:
  assumes "fn \<noteq> []"
  shows "\<exists>ms bss.
     length ms = Suc (length (ApplyOneOf_attempts nxt fn 0 m bs)) \<and>
     length bss = Suc (length (ApplyOneOf_attempts nxt fn 0 m bs)) \<and>
     ms ! 0 = m \<and> bss ! 0 = bs \<and>
     (\<forall>j < length (ApplyOneOf_attempts nxt fn 0 m bs).
        (let r = fst (nxt (rng (ms ! j))); g = snd (nxt (rng (ms ! j)));
             mut_idx = unat r mod length fn;
             res = (fn ! mut_idx) ((ms ! j)\<lparr>rng := g\<rparr>) (bss ! j)
         in ApplyOneOf_attempts nxt fn 0 m bs ! j = (mut_idx, fst res) \<and>
            ms ! Suc j = fst (snd res) \<and> bss ! Suc j = snd (snd res))) \<and>
     ApplyOneOf nxt fn m bs =
       Inr (snd (last (ApplyOneOf_attempts nxt fn 0 m bs)), last ms, last bss) \<and>
     ApplyOneOf_attempts nxt fn 0 m bs \<noteq> [] \<and>
     length (ApplyOneOf_attempts nxt fn 0 m bs) \<le> 10 \<and>
     fst (hd (ApplyOneOf_attempts nxt fn 0 m bs)) = unat (fst (nxt (rng m))) mod length fn \<and>
     (\<forall>a \<in> set (ApplyOneOf_attempts nxt fn 0 m bs). fst a < length fn) \<and>
     (\<forall>a \<in> set (butlast (ApplyOneOf_attempts nxt fn 0 m bs)). \<not> snd a) \<and>
     (\<not> snd (last (ApplyOneOf_attempts nxt fn 0 m bs))
        \<longrightarrow> length (ApplyOneOf_attempts nxt fn 0 m bs) = 10)"
proof -
  let ?att = "ApplyOneOf_attempts nxt fn 0 m bs"
  have ne: "?att \<noteq> []" and h: "fst (hd ?att) = unat (fst (nxt (rng m))) mod length fn"
    using attempts_first [of 0 fn nxt m bs] assms by simp_all
  have len: "length ?att \<le> 10" using attempts_length [of nxt fn 0 m bs] by simp
  have all: "\<not> snd (last ?att) \<longrightarrow> length ?att = 10"
    using attempts_all_fail_length [OF assms, of 0 nxt m bs] by simp
  have idx: "\<forall>a \<in> set ?att. fst a < length fn"
    using attempts_indices [of _ nxt fn 0 m bs] by blast
  have fl: "\<forall>a \<in> set (butlast ?att). \<not> snd a"
    using attempts_fail_before_last [of _ nxt fn 0 m bs] by blast
  from from_trace [OF assms, of nxt 0 m bs] obtain ms bss where
    t: "length ms = Suc (length ?att)" "length bss = Suc (length ?att)"
      "ms ! 0 = m" "bss ! 0 = bs"
      "\<forall>j < length ?att.
        (let r = fst (nxt (rng (ms ! j))); g = snd (nxt (rng (ms ! j)));
             mut_idx = unat r mod length fn;
             res = (fn ! mut_idx) ((ms ! j)\<lparr>rng := g\<rparr>) (bss ! j)
         in ?att ! j = (mut_idx, fst res) \<and>
            ms ! Suc j = fst (snd res) \<and> bss ! Suc j = snd (snd res))"
    and r: "ApplyOneOf_from nxt fn 0 m bs = Inr (?att \<noteq> [] \<and> snd (last ?att), last ms, last bss)"
    by blast
  have r': "ApplyOneOf nxt fn m bs = Inr (snd (last ?att), last ms, last bss)"
    using r ne by (simp add: ApplyOneOf_def)
  show ?thesis
    using t r' ne len h idx fl all by blast
qed


text \<open>
  The dispatcher does not weigh by the knobs: with the weights 0 and 1 for two primitives
  a knobs-weighted draw cannot return the first one, and \<^verbatim>\<open>ApplyOneOf\<close> applies it.
\<close>

theorem C2_ApplyOneOf_ignores_knobs:
  "\<not> knobs_weighted_possible (knobs mutator01) 0 \<and>
   knobs_weighted_possible (knobs mutator01) 1 \<and>
   ApplyOneOf_attempts counter_rng [always_mutates, never_mutates] 0 mutator01 [7] = [(0, True)] \<and>
   ApplyOneOf counter_rng [always_mutates, never_mutates] mutator01 [7] =
     Inr (True, mutator01\<lparr>rng := 1\<rparr>, [0, 7])"
  by (simp add: knobs_weighted_possible_def mutator01_def ApplyOneOf_def
      ApplyOneOf_from.simps ApplyOneOf_attempts.simps counter_rng_def always_mutates_def)

theorem C2_ApplyOneOf_retries_witness:
  "[never_mutates, always_mutates] \<noteq> [] \<and>
   ApplyOneOf_attempts counter_rng [never_mutates, always_mutates] 0 mutator01 [7] =
     [(0, False), (1, True)] \<and>
   ApplyOneOf counter_rng [never_mutates, always_mutates] mutator01 [7] =
     Inr (True, mutator01\<lparr>rng := 2\<rparr>, [0, 7]) \<and>
   length (ApplyOneOf_attempts counter_rng [never_mutates, always_mutates] 0 mutator01 [7]) \<le> 10 \<and>
   [never_mutates] \<noteq> [] \<and>
   ApplyOneOf counter_rng [never_mutates] mutator01 [7] = Inr (False, mutator01\<lparr>rng := 10\<rparr>, [7]) \<and>
   length (ApplyOneOf_attempts counter_rng [never_mutates] 0 mutator01 [7]) = 10"
proof -
  have a: "ApplyOneOf_attempts counter_rng [never_mutates, always_mutates] 0 mutator01 [7] =
     [(0, False), (1, True)]"
    by (simp add: mutator01_def ApplyOneOf_attempts.simps counter_rng_def
        never_mutates_def always_mutates_def)
  have e: "ApplyOneOf counter_rng [never_mutates, always_mutates] mutator01 [7] =
     Inr (True, mutator01\<lparr>rng := 2\<rparr>, [0, 7])"
    by (simp add: mutator01_def ApplyOneOf_def ApplyOneOf_from.simps counter_rng_def
        never_mutates_def always_mutates_def)
  have n2: "[never_mutates, always_mutates] \<noteq> []" by simp
  have n1: "[never_mutates] \<noteq> []" by simp
  from C2_ApplyOneOf_retries [OF n2, of counter_rng mutator01 "[7]"]
  have l: "length (ApplyOneOf_attempts counter_rng [never_mutates, always_mutates] 0 mutator01 [7]) \<le> 10"
    by blast
  have e1: "ApplyOneOf counter_rng [never_mutates] mutator01 [7] =
      Inr (False, mutator01\<lparr>rng := 10\<rparr>, [7])"
    by (simp add: mutator01_def ApplyOneOf_def ApplyOneOf_from.simps counter_rng_def
        never_mutates_def)
  from C2_ApplyOneOf_retries [OF n1, of counter_rng mutator01 "[7]"] obtain ms bss where
    r: "ApplyOneOf counter_rng [never_mutates] mutator01 [7] =
       Inr (snd (last (ApplyOneOf_attempts counter_rng [never_mutates] 0 mutator01 [7])),
            last ms, last bss)"
    and i: "\<not> snd (last (ApplyOneOf_attempts counter_rng [never_mutates] 0 mutator01 [7]))
        \<longrightarrow> length (ApplyOneOf_attempts counter_rng [never_mutates] 0 mutator01 [7]) = 10"
    by blast
  from r e1 have "fst (False, mutator01\<lparr>rng := 10\<rparr>, [7 :: uint8_t]) =
      fst (snd (last (ApplyOneOf_attempts counter_rng [never_mutates] 0 mutator01 [7])),
           last ms, last bss)"
    by (simp only: sum.inject)
  then have "\<not> snd (last (ApplyOneOf_attempts counter_rng [never_mutates] 0 mutator01 [7]))"
    by (simp only: fst_conv) simp
  with i have l1: "length (ApplyOneOf_attempts counter_rng [never_mutates] 0 mutator01 [7]) = 10"
    by blast
  show ?thesis using a e n2 n1 l e1 l1 by blast
qed

subsection \<open>Crash reporting\<close>

text \<open>What the loop over the inputs to try leaves as it is.\<close>

lemma TryInputs_frame:
  "TryInputs ext env n bin iv idxs s = Inr (found, s') \<Longrightarrow>
     fs s' = fs s \<and> corpus s' = corpus s \<and> num_runs s' = num_runs s \<and>
     blob_files s' = blob_files s \<and> local_files s' = local_files s \<and>
     requested_exit s' = requested_exit s \<and> num_crash_reports s' = num_crash_reports s \<and>
     crash_reports_logged s' = crash_reports_logged s"
proof (induction idxs arbitrary: s)
  case Nil
  then show ?case by simp
next
  case (Cons i idxs)
  obtain ok res w where e: "Execute ext (world s) bin [iv ! i] = (ok, res, w)"
    by (cases "Execute ext (world s) bin [iv ! i]")
  show ?case
  proof (cases ok)
    case True
    let ?s1 = "s\<lparr>world := w, executions := executions s @ [(bin, [iv ! i], ok)]\<rparr>"
    have "TryInputs ext env n bin iv idxs ?s1 = Inr (found, s')"
      using Cons.prems e True by (simp split: if_splits)
    from Cons.IH [OF this] show ?thesis by (simp add: crash_reports_logged_def)
  next
    case False
    then show ?thesis
      using Cons.prems e
      by (auto simp: Let_def LOG_def crash_reports_logged_def split: if_splits)
  qed
qed

text \<open>
  What the loop does: it executes the inputs of a prefix of the order one by one, all of
  them with success but the last when it found a reproducer, which it then writes.
\<close>

lemma TryInputs_trace:
  "TryInputs ext env n bin iv idxs s = Inr (found, s') \<Longrightarrow>
     \<exists>k. k \<le> length idxs \<and> found = (k < length idxs) \<and>
       executions s' = executions s @ map (\<lambda>i. (bin, [iv ! i], True)) (take k idxs) @
         (if found then [(bin, [iv ! (idxs ! k)], False)] else []) \<and>
       (found \<longrightarrow>
          remote_files s' = (remote_files s)
            (path_append (MakeCrashReproducerDirPath env) (Hash ext (iv ! (idxs ! k)))
               \<mapsto> iv ! (idxs ! k)) \<and>
          (\<exists>c d. log_lines s' = log_lines s @
             [DetectedCrashReproducingInput n (iv ! (idxs ! k)) c d
                (path_append (MakeCrashReproducerDirPath env) (Hash ext (iv ! (idxs ! k))))])) \<and>
       (\<not> found \<longrightarrow> remote_files s' = remote_files s \<and> log_lines s' = log_lines s)"
proof (induction idxs arbitrary: s)
  case Nil
  then show ?case by simp
next
  case (Cons i idxs)
  obtain ok res w where e: "Execute ext (world s) bin [iv ! i] = (ok, res, w)"
    by (cases "Execute ext (world s) bin [iv ! i]")
  show ?case
  proof (cases ok)
    case True
    let ?s1 = "s\<lparr>world := w, executions := executions s @ [(bin, [iv ! i], ok)]\<rparr>"
    have "TryInputs ext env n bin iv idxs ?s1 = Inr (found, s')"
      using Cons.prems e True by (simp split: if_splits)
    from Cons.IH [OF this] obtain k where k: "k \<le> length idxs" "found = (k < length idxs)"
      "executions s' = executions ?s1 @ map (\<lambda>i. (bin, [iv ! i], True)) (take k idxs) @
         (if found then [(bin, [iv ! (idxs ! k)], False)] else [])"
       "found \<longrightarrow>
          remote_files s' = (remote_files ?s1)
            (path_append (MakeCrashReproducerDirPath env) (Hash ext (iv ! (idxs ! k)))
               \<mapsto> iv ! (idxs ! k)) \<and>
          (\<exists>c d. log_lines s' = log_lines ?s1 @
             [DetectedCrashReproducingInput n (iv ! (idxs ! k)) c d
                (path_append (MakeCrashReproducerDirPath env) (Hash ext (iv ! (idxs ! k))))])"
       "\<not> found \<longrightarrow> remote_files s' = remote_files ?s1 \<and> log_lines s' = log_lines ?s1"
      by blast
    show ?thesis
      by (rule exI [of _ "Suc k"]) (use k True in simp)
  next
    case False
    show ?thesis
      by (rule exI [of _ 0])
        (use Cons.prems e False in \<open>auto simp: Let_def LOG_def split: if_splits\<close>)
  qed
qed

lemma word_succ_below:
  fixes a b :: size_t
  assumes "a < b"
  shows "unat (a + 1) = Suc (unat a)" "a + 1 \<le> b"
proof -
  have "unat a < unat b" using assms by (simp add: word_less_nat_alt)
  moreover have "unat b < 2 ^ 64" using unsigned_less [of b] by simp
  ultimately have "unat a + 1 < 2 ^ 64" by linarith
  then show u: "unat (a + 1) = Suc (unat a)" by (simp add: unat_word_ariths)
  show "a + 1 \<le> b" using u \<open>unat a < unat b\<close> by (simp add: word_le_nat_alt)
qed

lemma ReportCrash_capped:
  "max_num_crash_reports env \<le> num_crash_reports s \<Longrightarrow>
     ReportCrash ext env bin iv br s = Inr s"
  by (simp add: ReportCrash_def)

lemma ReportCrash_frame:
  assumes "ReportCrash ext env bin iv br s = Inr s'"
  shows "fs s' = fs s \<and> corpus s' = corpus s \<and> num_runs s' = num_runs s \<and>
     blob_files s' = blob_files s \<and> local_files s' = local_files s \<and>
     requested_exit s' = requested_exit s"
proof (cases "max_num_crash_reports env \<le> num_crash_reports s")
  case True
  then show ?thesis using assms by (simp add: ReportCrash_def)
next
  case False
  then show ?thesis
    using assms
    by (auto simp: ReportCrash_def Let_def LOG_def split: if_splits sum.splits
        dest!: TryInputs_frame)
qed

lemma ReportCrash_count:
  assumes "ReportCrash ext env bin iv br s = Inr s'"
    and "num_crash_reports s \<le> max_num_crash_reports env"
    and "crash_reports_logged s = unat (num_crash_reports s)"
  shows "num_crash_reports s' \<le> max_num_crash_reports env \<and>
    crash_reports_logged s' = unat (num_crash_reports s')"
proof (cases "max_num_crash_reports env \<le> num_crash_reports s")
  case True
  then show ?thesis using assms by (simp add: ReportCrash_def)
next
  case False
  then have lt: "num_crash_reports s < max_num_crash_reports env" by simp
  have u: "unat (num_crash_reports s + 1) = Suc (unat (num_crash_reports s))"
    and le: "num_crash_reports s + 1 \<le> max_num_crash_reports env"
    using word_succ_below [OF lt] by simp_all
  show ?thesis
    using assms(1,3) False u le
    by (auto simp: ReportCrash_def Let_def LOG_def crash_reports_logged_def
        split: if_splits sum.splits dest!: TryInputs_frame)
qed

subsection \<open>Executing a batch\<close>

lemma ExecuteAndReportCrash_frame:
  assumes "ExecuteAndReportCrash ext env bin iv s = Inr (ok, br, s')"
  shows "fs s' = fs s \<and> corpus s' = corpus s \<and> num_runs s' = num_runs s \<and>
     blob_files s' = blob_files s \<and> local_files s' = local_files s \<and>
     requested_exit s' = requested_exit s"
  using assms
  by (auto simp: ExecuteAndReportCrash_def Let_def split: prod.splits if_splits sum.splits
      dest!: ReportCrash_frame)

lemma ExecuteAndReportCrash_count:
  assumes "ExecuteAndReportCrash ext env bin iv s = Inr (ok, br, s')"
    and "num_crash_reports s \<le> max_num_crash_reports env"
    and "crash_reports_logged s = unat (num_crash_reports s)"
  shows "num_crash_reports s' \<le> max_num_crash_reports env \<and>
    crash_reports_logged s' = unat (num_crash_reports s')"
proof -
  obtain ok0 br0 w where e: "Execute ext (world s) bin iv = (ok0, br0, w)"
    by (cases "Execute ext (world s) bin iv")
  let ?s1 = "s\<lparr>world := w, executions := executions s @ [(bin, iv, ok0)]\<rparr>"
  show ?thesis
  proof (cases ok0)
    case True
    then show ?thesis
      using assms e by (auto simp: ExecuteAndReportCrash_def crash_reports_logged_def)
  next
    case False
    then have "ReportCrash ext env bin iv br0 ?s1 = Inr s'"
      using assms(1) e by (auto simp: ExecuteAndReportCrash_def split: sum.splits)
    from ReportCrash_count [OF this] assms(2,3) show ?thesis
      by (simp add: crash_reports_logged_def)
  qed
qed

lemma ExecuteAndReportCrash_success:
  assumes "ExecuteAndReportCrash ext env bin iv s = Inr (True, br, s')"
  shows "executions s' = executions s @ [(bin, iv, True)] \<and> remote_files s' = remote_files s
     \<and> log_lines s' = log_lines s"
  using assms
  by (auto simp: ExecuteAndReportCrash_def Let_def split: prod.splits if_splits sum.splits)

lemma RunExtraBinaries_frame:
  "RunExtraBinaries ext env iv bins success s = Inr (ok, s') \<Longrightarrow>
     fs s' = fs s \<and> corpus s' = corpus s \<and> num_runs s' = num_runs s \<and>
     blob_files s' = blob_files s \<and> local_files s' = local_files s \<and>
     requested_exit s' = requested_exit s"
proof (induction bins arbitrary: success s)
  case Nil
  then show ?case by simp
next
  case (Cons b bins)
  then show ?case
    by (auto split: sum.splits dest!: ExecuteAndReportCrash_frame) 
qed

lemma RunExtraBinaries_count:
  "RunExtraBinaries ext env iv bins success s = Inr (ok, s') \<Longrightarrow>
   num_crash_reports s \<le> max_num_crash_reports env \<Longrightarrow>
   crash_reports_logged s = unat (num_crash_reports s) \<Longrightarrow>
     num_crash_reports s' \<le> max_num_crash_reports env \<and>
     crash_reports_logged s' = unat (num_crash_reports s')"
proof (induction bins arbitrary: success s)
  case Nil
  then show ?case by simp
next
  case (Cons b bins)
  from Cons.prems(1) obtain ok1 br1 s1 where
    e: "ExecuteAndReportCrash ext env b iv s = Inr (ok1, br1, s1)"
    and r: "RunExtraBinaries ext env iv bins (ok1 \<and> success) s1 = Inr (ok, s')"
    by (auto split: sum.splits)
  from ExecuteAndReportCrash_count [OF e Cons.prems(2,3)] Cons.IH [OF r]
  show ?case by simp
qed

lemma RunExtraBinaries_success:
  "RunExtraBinaries ext env iv bins success s = Inr (True, s') \<Longrightarrow>
     success \<and> executions s' = executions s @ map (\<lambda>b. (b, iv, True)) bins \<and>
     remote_files s' = remote_files s \<and> log_lines s' = log_lines s"
proof (induction bins arbitrary: success s)
  case Nil
  then show ?case by simp
next
  case (Cons b bins)
  from Cons.prems(1) obtain ok1 br1 s1 where
    e: "ExecuteAndReportCrash ext env b iv s = Inr (ok1, br1, s1)"
    and r: "RunExtraBinaries ext env iv bins (ok1 \<and> success) s1 = Inr (True, s')"
    by (auto split: sum.splits)
  from Cons.IH [OF r] have ok1: ok1 and success by simp_all
  from ExecuteAndReportCrash_success [OF e [unfolded \<open>ok1\<close> [THEN eqTrueI]]] Cons.IH [OF r]
  show ?case by simp
qed

subsection \<open>Grading\<close>

text \<open>An input that gained new coverage has a feature that the feature set has not seen.\<close>

lemma AddPcPairFeatures_unseen:
  assumes "AddPcPairFeatures ext fset fv = (n, fv')"
  shows "\<exists>added. fv' = fv @ added \<and> n = length added \<and> (\<forall>f \<in> set added. Frequency fset f = 0)"
  using assms by (auto simp: AddPcPairFeatures_def Let_def split: if_splits)

lemma InputGainedNewCoverage_unseen:
  assumes "InputGainedNewCoverage ext env fset fv0 = (True, fv)"
  shows "list_ex (\<lambda>x. Frequency fset x = 0) fv"
proof -
  obtain unseen fv1 where c: "CountUnseenAndPruneFrequentFeatures fset fv0 = (unseen, fv1)"
    by (cases "CountUnseenAndPruneFrequentFeatures fset fv0")
  then have u: "unseen \<longrightarrow> list_ex (\<lambda>x. Frequency fset x = 0) fv1"
    by (auto simp: CountUnseenAndPruneFrequentFeatures_def Let_def)
  show ?thesis
  proof (cases "use_pcpair_features env")
    case False
    then show ?thesis using assms c u by (simp add: InputGainedNewCoverage_def)
  next
    case True
    obtain n fv2 where a: "AddPcPairFeatures ext fset fv1 = (n, fv2)"
      by (cases "AddPcPairFeatures ext fset fv1")
    from AddPcPairFeatures_unseen [OF a] obtain added where
      ad: "fv2 = fv1 @ added" "n = length added" "\<forall>f \<in> set added. Frequency fset f = 0"
      by blast
    have fv: "fv = fv2" and g: "n \<noteq> 0 \<or> unseen"
      using assms c a True by (auto simp: InputGainedNewCoverage_def split: if_splits)
    show ?thesis
    proof (cases "n = 0")
      case True
      then show ?thesis using g u fv ad by (auto simp: list_ex_iff)
    next
      case False
      then obtain x where "x \<in> set added" using ad(2) by (cases added) auto
      then show ?thesis using ad fv by (auto simp: list_ex_iff)
    qed
  qed
qed

lemma AppendIfOpen_fields [simp]:
  "fs (AppendIfOpen fl b s) = fs s"
  "corpus (AppendIfOpen fl b s) = corpus s"
  "num_runs (AppendIfOpen fl b s) = num_runs s"
  "num_crash_reports (AppendIfOpen fl b s) = num_crash_reports s"
  "requested_exit (AppendIfOpen fl b s) = requested_exit s"
  "log_lines (AppendIfOpen fl b s) = log_lines s"
  "local_files (AppendIfOpen fl b s) = local_files s"
  "remote_files (AppendIfOpen fl b s) = remote_files s"
  "remote_dirs (AppendIfOpen fl b s) = remote_dirs s"
  "world (AppendIfOpen fl b s) = world s"
  "executions (AppendIfOpen fl b s) = executions s"
  by (cases fl; simp add: AppendIfOpen_def)+

lemma LOG_fields [simp]:
  "fs (LOG e s) = fs s"
  "corpus (LOG e s) = corpus s"
  "num_runs (LOG e s) = num_runs s"
  "num_crash_reports (LOG e s) = num_crash_reports s"
  "requested_exit (LOG e s) = requested_exit s"
  "log_lines (LOG e s) = log_lines s @ [e]"
  "blob_files (LOG e s) = blob_files s"
  "local_files (LOG e s) = local_files s"
  "remote_files (LOG e s) = remote_files s"
  "remote_dirs (LOG e s) = remote_dirs s"
  "world (LOG e s) = world s"
  "executions (LOG e s) = executions s"
  by (simp_all add: LOG_def)

lemma WriteToLocalHashedFileInDir_fields [simp]:
  "fs (WriteToLocalHashedFileInDir ext d b s) = fs s"
  "corpus (WriteToLocalHashedFileInDir ext d b s) = corpus s"
  "num_runs (WriteToLocalHashedFileInDir ext d b s) = num_runs s"
  "num_crash_reports (WriteToLocalHashedFileInDir ext d b s) = num_crash_reports s"
  "requested_exit (WriteToLocalHashedFileInDir ext d b s) = requested_exit s"
  "log_lines (WriteToLocalHashedFileInDir ext d b s) = log_lines s"
  "blob_files (WriteToLocalHashedFileInDir ext d b s) = blob_files s"
  "remote_files (WriteToLocalHashedFileInDir ext d b s) = remote_files s"
  "remote_dirs (WriteToLocalHashedFileInDir ext d b s) = remote_dirs s"
  "world (WriteToLocalHashedFileInDir ext d b s) = world s"
  "executions (WriteToLocalHashedFileInDir ext d b s) = executions s"
  by (simp_all add: WriteToLocalHashedFileInDir_def)

lemma LogFeaturesAsSymbols_fields [simp]:
  "fs (LogFeaturesAsSymbols env fv s) = fs s"
  "corpus (LogFeaturesAsSymbols env fv s) = corpus s"
  "num_runs (LogFeaturesAsSymbols env fv s) = num_runs s"
  "num_crash_reports (LogFeaturesAsSymbols env fv s) = num_crash_reports s"
  "requested_exit (LogFeaturesAsSymbols env fv s) = requested_exit s"
  "blob_files (LogFeaturesAsSymbols env fv s) = blob_files s"
  "local_files (LogFeaturesAsSymbols env fv s) = local_files s"
  "remote_files (LogFeaturesAsSymbols env fv s) = remote_files s"
  "remote_dirs (LogFeaturesAsSymbols env fv s) = remote_dirs s"
  "world (LogFeaturesAsSymbols env fv s) = world s"
  "executions (LogFeaturesAsSymbols env fv s) = executions s"
  "crash_reports_logged (LogFeaturesAsSymbols env fv s) = crash_reports_logged s"
  by (simp_all add: LogFeaturesAsSymbols_def crash_reports_logged_def)

lemma UpdateAndMaybeLogStats_fields [simp]:
  "fs (UpdateAndMaybeLogStats t s) = fs s"
  "corpus (UpdateAndMaybeLogStats t s) = corpus s"
  "num_runs (UpdateAndMaybeLogStats t s) = num_runs s"
  "num_crash_reports (UpdateAndMaybeLogStats t s) = num_crash_reports s"
  "requested_exit (UpdateAndMaybeLogStats t s) = requested_exit s"
  "blob_files (UpdateAndMaybeLogStats t s) = blob_files s"
  "local_files (UpdateAndMaybeLogStats t s) = local_files s"
  "remote_files (UpdateAndMaybeLogStats t s) = remote_files s"
  "remote_dirs (UpdateAndMaybeLogStats t s) = remote_dirs s"
  "world (UpdateAndMaybeLogStats t s) = world s"
  "executions (UpdateAndMaybeLogStats t s) = executions s"
  "crash_reports_logged (UpdateAndMaybeLogStats t s) = crash_reports_logged s"
  by (simp_all add: UpdateAndMaybeLogStats_def crash_reports_logged_def)

lemma crash_reports_logged_simps [simp]:
  "crash_reports_logged (AppendIfOpen fl b s) = crash_reports_logged s"
  "crash_reports_logged (WriteToLocalHashedFileInDir ext d b s) = crash_reports_logged s"
  "crash_reports_logged (s\<lparr>fs := f\<rparr>) = crash_reports_logged s"
  "crash_reports_logged (s\<lparr>corpus := c\<rparr>) = crash_reports_logged s"
  "crash_reports_logged (s\<lparr>num_runs := n\<rparr>) = crash_reports_logged s"
  "crash_reports_logged (s\<lparr>world := w\<rparr>) = crash_reports_logged s"
  by (simp_all add: crash_reports_logged_def)

lemma InputPassesFilter_fields:
  assumes "InputPassesFilter ext env input s = (passes, s')"
  shows "fs s' = fs s" "corpus s' = corpus s" "num_runs s' = num_runs s"
    "num_crash_reports s' = num_crash_reports s" "requested_exit s' = requested_exit s"
    "log_lines s' = log_lines s" "blob_files s' = blob_files s" "local_files s' = local_files s"
    "remote_files s' = remote_files s" "remote_dirs s' = remote_dirs s"
    "executions s' = executions s" "crash_reports_logged s' = crash_reports_logged s"
  using assms
  by (auto simp: InputPassesFilter_def crash_reports_logged_def split: if_splits prod.splits)

text \<open>The branches of one grading step, with the coverage test and the filter named.\<close>

lemma GradeInput_cases:
  assumes "InputGainedNewCoverage ext env (fs s) (mutable_features (snd ir)) = (gained, fv)"
    and "InputPassesFilter ext env (fst ir)
           (AppendIfOpen uf (PackFeaturesAndHash ext (fst ir) fv) s) = (passes, s2)"
  shows "GradeInput ext env cf ff uf ir s =
     (if \<not> gained then Inr (False, AppendIfOpen uf (PackFeaturesAndHash ext (fst ir) fv) s)
      else if \<not> passes then Inr (False, s2)
      else if fv = [] then Inl (CheckFailed ''CHECK_GT'')
      else Inr (True,
        AppendIfOpen ff (PackFeaturesAndHash ext (fst ir) fv)
          ((if corpus_dir env \<noteq> []
            then WriteToLocalHashedFileInDir ext (corpus_dir env ! 0) (fst ir) else id)
           (AppendIfOpen cf (fst ir)
             ((if function_filter ext (mutable_features (snd ir))
               then (\<lambda>t. t\<lparr>corpus := Corpus_Add (corpus t) (fst ir) fv (result_cmp_args (snd ir))\<rparr>)
               else id)
              (LogFeaturesAsSymbols env fv (s2\<lparr>fs := IncrementFrequencies (fs s2) fv\<rparr>)))))))"
  using assms by (simp add: GradeInput_def Let_def)

lemma GradeInput_frame:
  assumes "GradeInput ext env cf ff uf ir s = Inr (g, s')"
  shows "executions s' = executions s \<and> remote_files s' = remote_files s \<and>
     num_crash_reports s' = num_crash_reports s \<and>
     crash_reports_logged s' = crash_reports_logged s \<and> num_runs s' = num_runs s \<and>
     requested_exit s' = requested_exit s \<and> num_pruned (corpus s') = num_pruned (corpus s)"
proof -
  obtain gained fv where
    i: "InputGainedNewCoverage ext env (fs s) (mutable_features (snd ir)) = (gained, fv)"
    by (cases "InputGainedNewCoverage ext env (fs s) (mutable_features (snd ir))")
  obtain passes s2 where
    p: "InputPassesFilter ext env (fst ir)
           (AppendIfOpen uf (PackFeaturesAndHash ext (fst ir) fv) s) = (passes, s2)"
    by (cases "InputPassesFilter ext env (fst ir)
           (AppendIfOpen uf (PackFeaturesAndHash ext (fst ir) fv) s)")
  note f = InputPassesFilter_fields [OF p]
  show ?thesis
    using assms f unfolding GradeInput_cases [OF i p]
    by (auto simp: Corpus_Add_def split: if_splits)
qed

lemma GradeInput_Admissions:
  assumes "GradeInput ext env cf ff uf ir s = Inr (g, s')"
    and "Admissions f c (fs s) (corpus s)"
  shows "Admissions f c (fs s') (corpus s')"
proof -
  obtain gained fv where
    i: "InputGainedNewCoverage ext env (fs s) (mutable_features (snd ir)) = (gained, fv)"
    by (cases "InputGainedNewCoverage ext env (fs s) (mutable_features (snd ir))")
  obtain passes s2 where
    p: "InputPassesFilter ext env (fst ir)
           (AppendIfOpen uf (PackFeaturesAndHash ext (fst ir) fv) s) = (passes, s2)"
    by (cases "InputPassesFilter ext env (fst ir)
           (AppendIfOpen uf (PackFeaturesAndHash ext (fst ir) fv) s)")
  note fl = InputPassesFilter_fields [OF p]
  show ?thesis
  proof (cases "gained \<and> passes")
    case False
    then show ?thesis
      using assms fl unfolding GradeInput_cases [OF i p] by (auto split: if_splits)
  next
    case True
    then have u: "list_ex (\<lambda>x. Frequency (fs s) x = 0) fv"
      using InputGainedNewCoverage_unseen [of ext env "fs s" _ fv] i by simp
    note a1 = Admissions_admit [OF assms(2) u, of "fst ir" "result_cmp_args (snd ir)"]
      and a2 = Admissions_count [OF assms(2), of fv]
    show ?thesis
      using assms(1) True a1 a2 fl unfolding GradeInput_cases [OF i p]
      by (auto split: if_splits)
  qed
qed

lemma GradeInputs_frame:
  "GradeInputs ext env cf ff uf irs gained s = Inr (g, s') \<Longrightarrow>
     executions s' = executions s \<and> remote_files s' = remote_files s \<and>
     num_crash_reports s' = num_crash_reports s \<and>
     crash_reports_logged s' = crash_reports_logged s \<and> num_runs s' = num_runs s \<and>
     requested_exit s' = requested_exit s \<and> num_pruned (corpus s') = num_pruned (corpus s)"
proof (induction irs arbitrary: gained s)
  case Nil
  then show ?case by simp
next
  case (Cons ir irs)
  show ?case
  proof (cases "EarlyExitRequested s")
    case True
    then show ?thesis using Cons.prems by simp
  next
    case False
    then obtain g1 s1 where
      e: "GradeInput ext env cf ff uf ir s = Inr (g1, s1)"
      and r: "GradeInputs ext env cf ff uf irs (gained \<or> g1) s1 = Inr (g, s')"
      using Cons.prems by (auto split: sum.splits)
    from GradeInput_frame [OF e] Cons.IH [OF r] show ?thesis by simp
  qed
qed

lemma GradeInputs_Admissions:
  "GradeInputs ext env cf ff uf irs gained s = Inr (g, s') \<Longrightarrow>
   Admissions f c (fs s) (corpus s) \<Longrightarrow> Admissions f c (fs s') (corpus s')"
proof (induction irs arbitrary: gained s)
  case Nil
  then show ?case by simp
next
  case (Cons ir irs)
  show ?case
  proof (cases "EarlyExitRequested s")
    case True
    then show ?thesis using Cons.prems by simp
  next
    case False
    then obtain g1 s1 where
      e: "GradeInput ext env cf ff uf ir s = Inr (g1, s1)"
      and r: "GradeInputs ext env cf ff uf irs (gained \<or> g1) s1 = Inr (g, s')"
      using Cons.prems by (auto split: sum.splits)
    from Cons.IH [OF r GradeInput_Admissions [OF e Cons.prems(2)]] show ?thesis .
  qed
qed

subsection \<open>Running a batch\<close>

lemma RunBatch_cases:
  assumes "RunBatch ext env iv cf ff uf s = Inr (g, s')"
  obtains ok0 br s1 success s2 where
    "ExecuteAndReportCrash ext env (binary env) iv s = Inr (ok0, br, s1)"
    "length iv = length (results br)"
    "RunExtraBinaries ext env iv (extra_binaries env) ok0 s1 = Inr (success, s2)"
    "(\<not> success \<and> exit_on_crash env \<and> \<not> g \<and>
        s' = RequestEarlyExit 1 (LOG ExitOnCrashIsEnabled s2)) \<or>
     ((success \<or> \<not> exit_on_crash env) \<and>
        GradeInputs ext env cf ff uf (zip iv (results br)) False
          (s2\<lparr>num_runs := num_runs s2 + of_nat (length iv)\<rparr>) = Inr (g, s'))"
proof -
  from assms obtain ok0 br s1 where
    e: "ExecuteAndReportCrash ext env (binary env) iv s = Inr (ok0, br, s1)"
    by (auto simp: RunBatch_def split: sum.splits)
  from assms e have len: "length iv = length (results br)"
    by (auto simp: RunBatch_def split: if_splits)
  from assms e len obtain success s2 where
    x: "RunExtraBinaries ext env iv (extra_binaries env) ok0 s1 = Inr (success, s2)"
    by (auto simp: RunBatch_def split: sum.splits)
  from assms e len x have
    "(\<not> success \<and> exit_on_crash env \<and> \<not> g \<and>
        s' = RequestEarlyExit 1 (LOG ExitOnCrashIsEnabled s2)) \<or>
     ((success \<or> \<not> exit_on_crash env) \<and>
        GradeInputs ext env cf ff uf (zip iv (results br)) False
          (s2\<lparr>num_runs := num_runs s2 + of_nat (length iv)\<rparr>) = Inr (g, s'))"
    by (auto simp: RunBatch_def split: if_splits)
  with e len x show ?thesis using that by blast
qed

lemma RunBatch_count:
  assumes "RunBatch ext env iv cf ff uf s = Inr (g, s')"
    and "num_crash_reports s \<le> max_num_crash_reports env"
    and "crash_reports_logged s = unat (num_crash_reports s)"
  shows "num_crash_reports s' \<le> max_num_crash_reports env \<and>
    crash_reports_logged s' = unat (num_crash_reports s')"
proof -
  from assms(1) obtain ok0 br s1 success s2 where
    e: "ExecuteAndReportCrash ext env (binary env) iv s = Inr (ok0, br, s1)"
    and x: "RunExtraBinaries ext env iv (extra_binaries env) ok0 s1 = Inr (success, s2)"
    and d: "(\<not> success \<and> exit_on_crash env \<and> \<not> g \<and>
        s' = RequestEarlyExit 1 (LOG ExitOnCrashIsEnabled s2)) \<or>
     ((success \<or> \<not> exit_on_crash env) \<and>
        GradeInputs ext env cf ff uf (zip iv (results br)) False
          (s2\<lparr>num_runs := num_runs s2 + of_nat (length iv)\<rparr>) = Inr (g, s'))"
    by (rule RunBatch_cases)
  have c1: "num_crash_reports s1 \<le> max_num_crash_reports env"
    "crash_reports_logged s1 = unat (num_crash_reports s1)"
    using ExecuteAndReportCrash_count [OF e assms(2,3)] by simp_all
  have c2: "num_crash_reports s2 \<le> max_num_crash_reports env"
    "crash_reports_logged s2 = unat (num_crash_reports s2)"
    using RunExtraBinaries_count [OF x c1] by simp_all
  from d show ?thesis
  proof
    assume "\<not> success \<and> exit_on_crash env \<and> \<not> g \<and>
        s' = RequestEarlyExit 1 (LOG ExitOnCrashIsEnabled s2)"
    then show ?thesis using c2
      by (simp add: RequestEarlyExit_def crash_reports_logged_def)
  next
    assume "(success \<or> \<not> exit_on_crash env) \<and>
        GradeInputs ext env cf ff uf (zip iv (results br)) False
          (s2\<lparr>num_runs := num_runs s2 + of_nat (length iv)\<rparr>) = Inr (g, s')"
    then have "GradeInputs ext env cf ff uf (zip iv (results br)) False
          (s2\<lparr>num_runs := num_runs s2 + of_nat (length iv)\<rparr>) = Inr (g, s')" by simp
    from GradeInputs_frame [OF this] c2 show ?thesis by simp
  qed
qed

text \<open>
  Claim C7, as the code has it. If \<^verbatim>\<open>exit_on_crash\<close> is set and an execution of the
  batch fails (the primary binary or an extra one), \<^verbatim>\<open>RunBatch\<close> returns false, an early
  exit with the exit code 1 is requested, and no input of the batch is graded: the feature
  set, the corpus, the number of runs, the blob files (corpus and features files) and the
  local files (the mirror in \<^verbatim>\<open>corpus_dir\<close>) are as before. The crash reporter may still have
  written a reproducer under \<^verbatim>\<open>crashes/\<close>.
\<close>

theorem C7_exit_on_crash_skips_grading:
  assumes "RunBatch ext env iv cf ff uf s = Inr (g, s')"
    and "exit_on_crash env"
    and "list_ex (\<lambda>e. \<not> snd (snd e)) (drop (length (executions s)) (executions s'))"
  shows "\<not> g \<and> EarlyExitRequested s' \<and> ExitCode s' = 1 \<and>
     fs s' = fs s \<and> corpus s' = corpus s \<and> num_runs s' = num_runs s \<and>
     blob_files s' = blob_files s \<and> local_files s' = local_files s"
proof -
  from assms(1) obtain ok0 br s1 success s2 where
    e: "ExecuteAndReportCrash ext env (binary env) iv s = Inr (ok0, br, s1)"
    and x: "RunExtraBinaries ext env iv (extra_binaries env) ok0 s1 = Inr (success, s2)"
    and d: "(\<not> success \<and> exit_on_crash env \<and> \<not> g \<and>
        s' = RequestEarlyExit 1 (LOG ExitOnCrashIsEnabled s2)) \<or>
     ((success \<or> \<not> exit_on_crash env) \<and>
        GradeInputs ext env cf ff uf (zip iv (results br)) False
          (s2\<lparr>num_runs := num_runs s2 + of_nat (length iv)\<rparr>) = Inr (g, s'))"
    by (rule RunBatch_cases)
  from d show ?thesis
  proof
    assume "\<not> success \<and> exit_on_crash env \<and> \<not> g \<and>
        s' = RequestEarlyExit 1 (LOG ExitOnCrashIsEnabled s2)"
    then show ?thesis
      using ExecuteAndReportCrash_frame [OF e] RunExtraBinaries_frame [OF x]
      by (simp add: RequestEarlyExit_def EarlyExitRequested_def ExitCode_def)
  next
    assume a: "(success \<or> \<not> exit_on_crash env) \<and>
        GradeInputs ext env cf ff uf (zip iv (results br)) False
          (s2\<lparr>num_runs := num_runs s2 + of_nat (length iv)\<rparr>) = Inr (g, s')"
    then have success: success using assms(2) by simp
    from a have "GradeInputs ext env cf ff uf (zip iv (results br)) False
          (s2\<lparr>num_runs := num_runs s2 + of_nat (length iv)\<rparr>) = Inr (g, s')" by simp
    from GradeInputs_frame [OF this] have ex: "executions s' = executions s2" by simp
    from RunExtraBinaries_success [OF x [unfolded success [THEN eqTrueI]]]
    have ok0: ok0 and x2: "executions s2 = executions s1 @ map (\<lambda>b. (b, iv, True)) (extra_binaries env)"
      by simp_all
    from ExecuteAndReportCrash_success [OF e [unfolded ok0 [THEN eqTrueI]]]
    have "executions s1 = executions s @ [(binary env, iv, True)]" by simp
    then have "drop (length (executions s)) (executions s') =
        (binary env, iv, True) # map (\<lambda>b. (b, iv, True)) (extra_binaries env)"
      using ex x2 by simp
    then have False using assms(3) by (simp add: list_ex_iff)
    then show ?thesis ..
  qed
qed

lemma AddPcPairFeatures_function_filter [simp]:
  "AddPcPairFeatures (ext\<lparr>function_filter := f\<rparr>) fset fv = AddPcPairFeatures ext fset fv"
  by (simp add: AddPcPairFeatures_def)

lemma InputGainedNewCoverage_function_filter [simp]:
  "InputGainedNewCoverage (ext\<lparr>function_filter := f\<rparr>) env fset fv =
   InputGainedNewCoverage ext env fset fv"
  by (auto simp: InputGainedNewCoverage_def Let_def split: prod.splits)

lemma InputPassesFilter_function_filter [simp]:
  "InputPassesFilter (ext\<lparr>function_filter := f\<rparr>) env input s =
   InputPassesFilter ext env input s"
  by (simp add: InputPassesFilter_def)

lemma WriteToLocalHashedFileInDir_function_filter [simp]:
  "WriteToLocalHashedFileInDir (ext\<lparr>function_filter := f\<rparr>) d b s =
   WriteToLocalHashedFileInDir ext d b s"
  by (simp add: WriteToLocalHashedFileInDir_def)

lemma corpus_update_commutes [simp]:
  "AppendIfOpen fl b (s\<lparr>corpus := c\<rparr>) = (AppendIfOpen fl b s)\<lparr>corpus := c\<rparr>"
  "WriteToLocalHashedFileInDir ext d b (s\<lparr>corpus := c\<rparr>) =
     (WriteToLocalHashedFileInDir ext d b s)\<lparr>corpus := c\<rparr>"
  by (cases fl; simp add: AppendIfOpen_def WriteToLocalHashedFileInDir_def)+



subsection \<open>The reproducer\<close>

text \<open>
  Claim C5. When \<^verbatim>\<open>ReportCrash\<close> runs below the bound of reports and returns, the order of
  the inputs to try has the suspect index \<^verbatim>\<open>num_outputs_read\<close> in front and again at its own
  position (when it is an index of the batch; the order is \<open>0, 1, ...\<close> otherwise). The
  reporter executes the inputs of a prefix of that order one by one; all of them succeed
  but possibly the last. If the last one fails, it is the first input that reproduces the
  failure: it is written to \<^verbatim>\<open><workdir>/crashes/<hash(input)>\<close>, nothing is tried after it
  and no absence is logged. If none fails, every input of the order was tried, no file is
  written and the last log line says that the crash was not observed.
\<close>

theorem C5_ReportCrash_first_reproducer:
  fixes iv :: "ByteArray list" and br :: BatchResult
  defines "idxs \<equiv> input_idxs_to_try (length iv) (num_outputs_read br)"
  assumes "num_crash_reports s < max_num_crash_reports env"
    and "ReportCrash ext env bin iv br s = Inr s'"
  shows "(unat (num_outputs_read br) < length iv \<longrightarrow>
            idxs = unat (num_outputs_read br) # [0..<length iv] \<and>
            idxs ! 0 = unat (num_outputs_read br) \<and>
            idxs ! Suc (unat (num_outputs_read br)) = unat (num_outputs_read br)) \<and>
         (\<not> unat (num_outputs_read br) < length iv \<longrightarrow> idxs = [0..<length iv]) \<and>
         (\<exists>k. k \<le> length idxs \<and>
            executions s' = executions s @ map (\<lambda>i. (bin, [iv ! i], True)) (take k idxs) @
              (if k < length idxs then [(bin, [iv ! (idxs ! k)], False)] else []) \<and>
            (k < length idxs \<longrightarrow>
               remote_files s' = (remote_files s)
                 (path_append (path_append (workdir env) ''crashes'') (Hash ext (iv ! (idxs ! k)))
                    \<mapsto> iv ! (idxs ! k)) \<and>
               CrashWasNotObserved (num_crash_reports s)
                 \<notin> set (drop (length (log_lines s)) (log_lines s'))) \<and>
            (\<not> k < length idxs \<longrightarrow>
               remote_files s' = remote_files s \<and>
               last (log_lines s') = CrashWasNotObserved (num_crash_reports s)))"
proof -
  let ?n = "num_crash_reports s"
  let ?s1 = "LOG (BatchExecutionFailed ?n bin (exit_code br) (failure_description br)
                (length iv) (batch_log br)) s"
  let ?s2 = "?s1\<lparr>num_crash_reports := ?n + 1\<rparr>"
  let ?s3 = "if num_crash_reports ?s2 = max_num_crash_reports env
             then LOG (ReachedMaxNumCrashReports ?n) ?s2 else ?s2"
  let ?s4 = "LOG (ExecutingInputsOneByOne ?n) ?s3"
  have nc: "\<not> max_num_crash_reports env \<le> num_crash_reports s"
    using assms(2) by simp
  from assms(3) nc obtain found s5 where
    t: "TryInputs ext env ?n bin iv idxs ?s4 = Inr (found, s5)"
    and s': "s' = (if found then s5 else LOG (CrashWasNotObserved ?n) s5)"
    by (auto simp: ReportCrash_def Let_def idxs_def split: if_splits sum.splits)
  from TryInputs_trace [OF t] obtain k where k: "k \<le> length idxs" "found = (k < length idxs)"
    and ex: "executions s5 = executions ?s4 @ map (\<lambda>i. (bin, [iv ! i], True)) (take k idxs) @
         (if found then [(bin, [iv ! (idxs ! k)], False)] else [])"
    and f: "found \<longrightarrow>
          remote_files s5 = (remote_files ?s4)
            (path_append (MakeCrashReproducerDirPath env) (Hash ext (iv ! (idxs ! k)))
               \<mapsto> iv ! (idxs ! k)) \<and>
          (\<exists>c d. log_lines s5 = log_lines ?s4 @
             [DetectedCrashReproducingInput ?n (iv ! (idxs ! k)) c d
                (path_append (MakeCrashReproducerDirPath env) (Hash ext (iv ! (idxs ! k))))])"
    and nf: "\<not> found \<longrightarrow> remote_files s5 = remote_files ?s4 \<and> log_lines s5 = log_lines ?s4"
    by blast
  have order: "(unat (num_outputs_read br) < length iv \<longrightarrow>
            idxs = unat (num_outputs_read br) # [0..<length iv] \<and>
            idxs ! 0 = unat (num_outputs_read br) \<and>
            idxs ! Suc (unat (num_outputs_read br)) = unat (num_outputs_read br)) \<and>
         (\<not> unat (num_outputs_read br) < length iv \<longrightarrow> idxs = [0..<length iv])"
    by (simp add: idxs_def input_idxs_to_try_def)
  have lg4: "\<exists>pre. log_lines ?s4 = log_lines s @ pre \<and> CrashWasNotObserved ?n \<notin> set pre"
    by simp
  have body: "executions s' = executions s @ map (\<lambda>i. (bin, [iv ! i], True)) (take k idxs) @
              (if k < length idxs then [(bin, [iv ! (idxs ! k)], False)] else []) \<and>
            (k < length idxs \<longrightarrow>
               remote_files s' = (remote_files s)
                 (path_append (path_append (workdir env) ''crashes'') (Hash ext (iv ! (idxs ! k)))
                    \<mapsto> iv ! (idxs ! k)) \<and>
               CrashWasNotObserved (num_crash_reports s)
                 \<notin> set (drop (length (log_lines s)) (log_lines s'))) \<and>
            (\<not> k < length idxs \<longrightarrow>
               remote_files s' = remote_files s \<and>
               last (log_lines s') = CrashWasNotObserved (num_crash_reports s))"
  proof (cases found)
    case True
    then obtain c d where "log_lines s5 = log_lines ?s4 @
             [DetectedCrashReproducingInput ?n (iv ! (idxs ! k)) c d
                (path_append (MakeCrashReproducerDirPath env) (Hash ext (iv ! (idxs ! k))))]"
      using f by blast
    then show ?thesis
      using True k s' ex f by (simp add: MakeCrashReproducerDirPath_def)
  next
    case False
    then show ?thesis using k s' ex nf by simp
  qed
  show ?thesis using order k(1) body by blast
qed

subsection \<open>Admission to the corpus\<close>

lemma RunBatch_Admissions:
  assumes "RunBatch ext env iv cf ff uf s = Inr (g, s')"
    and "Admissions f c (fs s) (corpus s)"
  shows "Admissions f c (fs s') (corpus s')"
proof -
  from assms(1) obtain ok0 br s1 success s2 where
    e: "ExecuteAndReportCrash ext env (binary env) iv s = Inr (ok0, br, s1)"
    and x: "RunExtraBinaries ext env iv (extra_binaries env) ok0 s1 = Inr (success, s2)"
    and d: "(\<not> success \<and> exit_on_crash env \<and> \<not> g \<and>
        s' = RequestEarlyExit 1 (LOG ExitOnCrashIsEnabled s2)) \<or>
     ((success \<or> \<not> exit_on_crash env) \<and>
        GradeInputs ext env cf ff uf (zip iv (results br)) False
          (s2\<lparr>num_runs := num_runs s2 + of_nat (length iv)\<rparr>) = Inr (g, s'))"
    by (rule RunBatch_cases)
  have s2: "fs s2 = fs s" "corpus s2 = corpus s"
    using ExecuteAndReportCrash_frame [OF e] RunExtraBinaries_frame [OF x] by simp_all
  from d show ?thesis
  proof
    assume "\<not> success \<and> exit_on_crash env \<and> \<not> g \<and>
        s' = RequestEarlyExit 1 (LOG ExitOnCrashIsEnabled s2)"
    then show ?thesis using s2 assms(2) by (simp add: RequestEarlyExit_def)
  next
    assume "(success \<or> \<not> exit_on_crash env) \<and>
        GradeInputs ext env cf ff uf (zip iv (results br)) False
          (s2\<lparr>num_runs := num_runs s2 + of_nat (length iv)\<rparr>) = Inr (g, s')"
    then have "GradeInputs ext env cf ff uf (zip iv (results br)) False
          (s2\<lparr>num_runs := num_runs s2 + of_nat (length iv)\<rparr>) = Inr (g, s')" by simp
    from GradeInputs_Admissions [OF this] s2 assms(2) show ?thesis by simp
  qed
qed

lemma RerunLoop_Admissions:
  "RerunLoop fuel ext env fp to_rerun s = Some (Inr s') \<Longrightarrow>
   Admissions f c (fs s) (corpus s) \<Longrightarrow> Admissions f c (fs s') (corpus s')"
proof (induction fuel arbitrary: to_rerun s)
  case 0
  then show ?case by simp
next
  case (Suc fuel)
  show ?case
  proof (cases "to_rerun = [] \<or> EarlyExitRequested s")
    case True
    then show ?thesis using Suc.prems by (auto split: if_splits)
  next
    case False
    let ?k = "min (length to_rerun) (unat (batch_size env))"
    from Suc.prems(1) False obtain g s1 where
      r: "RunBatch ext env (drop (length to_rerun - ?k) to_rerun) None None (Some fp) s = Inr (g, s1)"
      and l: "RerunLoop fuel ext env fp (take (length to_rerun - ?k) to_rerun)
                (if g then UpdateAndMaybeLogStats ''rerun-old'' s1 else s1) = Some (Inr s')"
      by (auto simp: Let_def split: sum.splits)
    have "Admissions f c (fs s1) (corpus s1)"
      using RunBatch_Admissions [OF r Suc.prems(2)] .
    then have "Admissions f c (fs (if g then UpdateAndMaybeLogStats ''rerun-old'' s1 else s1))
        (corpus (if g then UpdateAndMaybeLogStats ''rerun-old'' s1 else s1))"
      by simp
    from Suc.IH [OF l this] show ?thesis .
  qed
qed

lemma Rerun_Admissions:
  "Rerun fuel ext env to_rerun s = Some (Inr s') \<Longrightarrow>
   Admissions f c (fs s) (corpus s) \<Longrightarrow> Admissions f c (fs s') (corpus s')"
  using RerunLoop_Admissions [of fuel ext env _ to_rerun "LOG (InputsToRerun (length to_rerun)) s" s' f c]
  by (auto simp: Rerun_def split: if_splits)

lemma input_features_callback_Admissions:
  assumes "Admissions f c (fs (fst st)) (corpus (fst st))"
  shows "Admissions f c (fs (fst (input_features_callback env rerun inp st)))
           (corpus (fst (input_features_callback env rerun inp st)))"
proof -
  obtain unseen fv where
    c: "CountUnseenAndPruneFrequentFeatures (fs (fst st)) (snd inp) = (unseen, fv)"
    by (cases "CountUnseenAndPruneFrequentFeatures (fs (fst st)) (snd inp)")
  then have u: "unseen \<longrightarrow> list_ex (\<lambda>x. Frequency (fs (fst st)) x = 0) fv"
    by (auto simp: CountUnseenAndPruneFrequentFeatures_def Let_def)
  show ?thesis
  proof (cases unseen)
    case True
    with u have "list_ex (\<lambda>x. Frequency (fs (fst st)) x = 0) fv" by simp
    from Admissions_admit [OF assms this, of "fst inp" "[]"] show ?thesis
      using assms c True by (simp add: input_features_callback_def Let_def)
  next
    case False
    then show ?thesis
      using assms c by (simp add: input_features_callback_def Let_def)
  qed
qed

lemma fold_callback_Admissions:
  "Admissions f c (fs (fst st)) (corpus (fst st)) \<Longrightarrow>
     Admissions f c (fs (fst (fold (input_features_callback env rerun) recs st)))
        (corpus (fst (fold (input_features_callback env rerun) recs st)))"
  by (induction recs arbitrary: st) (simp_all add: input_features_callback_Admissions)

lemma LoadShard_Admissions:
  assumes "LoadShard fuel ext env load_env idx rerun s = Some (Inr s')"
    and "Admissions f c (fs s) (corpus s)"
  shows "Admissions f c (fs s') (corpus s')"
proof -
  let ?st = "fold (input_features_callback env rerun)
                 (ReadShard ext (world s) (MakeCorpusPath ext load_env idx)
                    (MakeFeaturesPath ext load_env idx)) (s, [], 0)"
  let ?s2 = "if snd (snd ?st) \<noteq> 0 then UpdateAndMaybeLogStats ''load-shard'' (fst ?st) else fst ?st"
  have "Admissions f c (fs (fst ?st)) (corpus (fst ?st))"
    by (rule fold_callback_Admissions) (simp add: assms(2))
  then have a: "Admissions f c (fs ?s2) (corpus ?s2)" by simp
  have "Rerun fuel ext env (fst (snd ?st)) ?s2 = Some (Inr s')"
    using assms(1) by (simp add: LoadShard_def Let_def)
  from Rerun_Admissions [OF this a] show ?thesis .
qed

text \<open>What a chain of admissions means for the records and the frequencies.\<close>

lemma saturating_increment_nonzero: "saturating_increment c \<noteq> 0"
proof (cases "c = 255")
  case True
  then show ?thesis by (simp add: saturating_increment_def)
next
  case False
  have "c + 1 \<noteq> 0"
  proof
    assume "c + 1 = 0"
    then have "c = - 1" by (simp add: eq_neg_iff_add_eq_0)
    then show False using False by simp
  qed
  then show ?thesis using False by (simp add: saturating_increment_def)
qed


lemma fold_IncrementFrequency_other:
  "x \<notin> set fv \<Longrightarrow> fold IncrementFrequency fv fr x = fr x"
  by (induction fv arbitrary: fr) (simp_all add: IncrementFrequency_def)

lemma fold_IncrementFrequency_nonzero:
  "x \<in> set fv \<Longrightarrow> fold IncrementFrequency fv fr x \<noteq> 0"
proof (induction fv arbitrary: fr)
  case Nil
  then show ?case by simp
next
  case (Cons a fv)
  show ?case
  proof (cases "x \<in> set fv")
    case True
    then show ?thesis using Cons.IH by simp
  next
    case False
    then have "x = a" using Cons.prems by simp
    have "IncrementFrequency a fr a \<noteq> 0"
      by (simp add: IncrementFrequency_def saturating_increment_nonzero)
    then show ?thesis
      using fold_IncrementFrequency_other [OF False, of "IncrementFrequency a fr"] \<open>x = a\<close>
      by simp
  qed
qed

lemma fold_IncrementFrequency_zero:
  "fold IncrementFrequency fv fr x = 0 \<Longrightarrow> fr x = 0"
proof (induction fv arbitrary: fr)
  case Nil
  then show ?case by simp
next
  case (Cons a fv)
  then have "IncrementFrequency a fr x = 0" by simp
  then show ?case
    by (cases "x = a") (simp_all add: IncrementFrequency_def saturating_increment_nonzero)
qed

lemma IncrementFrequencies_nonzero:
  "x \<in> set fv \<Longrightarrow> Frequency (IncrementFrequencies fset fv) x \<noteq> 0"
  by (simp add: IncrementFrequencies_def Frequency_def fold_IncrementFrequency_nonzero)

lemma IncrementFrequencies_zero:
  "Frequency (IncrementFrequencies fset fv) x = 0 \<Longrightarrow> Frequency fset x = 0"
  using fold_IncrementFrequency_zero [of fv "frequencies fset" x]
  by (simp add: IncrementFrequencies_def Frequency_def)

lemma Admissions_records:
  "Admissions f c f' c' \<Longrightarrow>
     \<exists>new. records c' = records c @ new \<and> num_pruned c' = num_pruned c \<and>
       (\<forall>x. Frequency f' x = 0 \<longrightarrow> Frequency f x = 0) \<and>
       (\<forall>r \<in> set new. \<forall>x \<in> set (features r). Frequency f' x \<noteq> 0) \<and>
       (\<forall>j < length new. \<exists>x \<in> set (features (new ! j)).
           Frequency f x = 0 \<and> (\<forall>i < j. x \<notin> set (features (new ! i))))"
proof (induction rule: Admissions.induct)
  case (Admissions_none f c)
  then show ?case by simp
next
  case (Admissions_admit f c f1 c1 fv input cmp)
  then obtain new where n: "records c1 = records c @ new" "num_pruned c1 = num_pruned c"
    "\<forall>x. Frequency f1 x = 0 \<longrightarrow> Frequency f x = 0"
    "\<forall>r \<in> set new. \<forall>x \<in> set (features r). Frequency f1 x \<noteq> 0"
    "\<forall>j < length new. \<exists>x \<in> set (features (new ! j)).
           Frequency f x = 0 \<and> (\<forall>i < j. x \<notin> set (features (new ! i)))"
    by blast
  from Admissions_admit.hyps(2) obtain x where x: "x \<in> set fv" "Frequency f1 x = 0"
    by (auto simp: list_ex_iff)
  let ?r = "\<lparr>data = input, features = fv, cmp_args = cmp\<rparr>"
  let ?new = "new @ [?r]"
  have a: "records (Corpus_Add c1 input fv cmp) = records c @ ?new"
    "num_pruned (Corpus_Add c1 input fv cmp) = num_pruned c"
    using n(1,2) by (simp_all add: Corpus_Add_def)
  have b: "\<forall>y. Frequency (IncrementFrequencies f1 fv) y = 0 \<longrightarrow> Frequency f y = 0"
    using n(3) IncrementFrequencies_zero by blast
  have c: "\<forall>r \<in> set ?new. \<forall>y \<in> set (features r). Frequency (IncrementFrequencies f1 fv) y \<noteq> 0"
  proof (intro ballI)
    fix r y assume r: "r \<in> set ?new" and y: "y \<in> set (features r)"
    show "Frequency (IncrementFrequencies f1 fv) y \<noteq> 0"
    proof (cases "r \<in> set new")
      case True
      then have "Frequency f1 y \<noteq> 0" using n(4) y by blast
      then show ?thesis using IncrementFrequencies_zero [of f1 fv y] by blast
    next
      case False
      then have "r = ?r" using r by simp
      then have "y \<in> set fv" using y by simp
      then show ?thesis by (rule IncrementFrequencies_nonzero)
    qed
  qed
  have d: "\<forall>j < length ?new. \<exists>y \<in> set (features (?new ! j)).
           Frequency f y = 0 \<and> (\<forall>i < j. y \<notin> set (features (?new ! i)))"
  proof (intro allI impI)
    fix j assume j: "j < length ?new"
    show "\<exists>y \<in> set (features (?new ! j)).
           Frequency f y = 0 \<and> (\<forall>i < j. y \<notin> set (features (?new ! i)))"
    proof (cases "j < length new")
      case True
      then show ?thesis using n(5) by (auto simp: nth_append)
    next
      case False
      then have jl: "j = length new" using j by simp
      have "Frequency f x = 0" using n(3) x(2) by simp
      moreover have "\<forall>i < j. x \<notin> set (features (?new ! i))"
      proof (intro allI impI)
        fix i assume "i < j"
        then have "new ! i \<in> set new" "?new ! i = new ! i" using jl by (simp_all add: nth_append)
        then show "x \<notin> set (features (?new ! i))" using n(4) x(2) by auto
      qed
      ultimately show ?thesis using x(1) jl by (auto simp: nth_append)
    qed
  qed
  show ?case
    by (rule exI [of _ ?new]) (use a b c d in simp)
next
  case (Admissions_count f c f1 c1 fv)
  then obtain new where n: "records c1 = records c @ new" "num_pruned c1 = num_pruned c"
    "\<forall>x. Frequency f1 x = 0 \<longrightarrow> Frequency f x = 0"
    "\<forall>r \<in> set new. \<forall>x \<in> set (features r). Frequency f1 x \<noteq> 0"
    "\<forall>j < length new. \<exists>x \<in> set (features (new ! j)).
           Frequency f x = 0 \<and> (\<forall>i < j. x \<notin> set (features (new ! i)))"
    by blast
  have b: "\<forall>y. Frequency (IncrementFrequencies f1 fv) y = 0 \<longrightarrow> Frequency f y = 0"
    using n(3) IncrementFrequencies_zero by blast
  have c: "\<forall>r \<in> set new. \<forall>y \<in> set (features r). Frequency (IncrementFrequencies f1 fv) y \<noteq> 0"
  proof (intro ballI)
    fix r y assume "r \<in> set new" "y \<in> set (features r)"
    then have "Frequency f1 y \<noteq> 0" using n(4) by blast
    then show "Frequency (IncrementFrequencies f1 fv) y \<noteq> 0"
      using IncrementFrequencies_zero [of f1 fv y] by blast
  qed
  show ?case
    by (rule exI [of _ new]) (use n(1,2,5) b c in simp)
qed

subsection \<open>Evaluation on the toy target\<close>

lemmas toy_defs = toy_def toy_Execute_def toy_crashes_def toy_features_def env_exit_def
  env35_def state0_def

lemmas engine_defs = RunBatch_def ExecuteAndReportCrash_def ReportCrash_def
  input_idxs_to_try_def MakeCrashReproducerDirPath_def path_append_def LOG_def
  RequestEarlyExit_def Let_def

subsection \<open>Loading a shard\<close>

text \<open>
  With a batch size that is not zero every iteration of the loop of \<^verbatim>\<open>Rerun\<close> takes at least
  one input away, so the loop ends within as many iterations as there are inputs.
\<close>

lemma RerunLoop_returns:
  "batch_size env \<noteq> 0 \<Longrightarrow> length to_rerun < fuel \<Longrightarrow>
     RerunLoop fuel ext env fp to_rerun s \<noteq> None"
proof (induction fuel arbitrary: to_rerun s)
  case 0
  then show ?case by simp
next
  case (Suc fuel)
  show ?case
  proof (cases "to_rerun = [] \<or> EarlyExitRequested s")
    case True
    then show ?thesis by auto
  next
    case False
    let ?k = "min (length to_rerun) (unat (batch_size env))"
    have "unat (batch_size env) \<noteq> 0" using Suc.prems(1) by (simp add: unat_eq_0)
    then have "0 < ?k" using False by simp
    then have "length to_rerun - ?k < fuel"
      using Suc.prems(2) by arith
    then have l: "length (take (length to_rerun - ?k) to_rerun) < fuel"
      by simp
    show ?thesis
    proof (cases "RunBatch ext env (drop (length to_rerun - ?k) to_rerun) None None (Some fp) s")
      case (Inl e)
      then show ?thesis using False by (simp add: Let_def)
    next
      case (Inr p)
      obtain g s1 where p: "p = (g, s1)" by (cases p)
      show ?thesis
        using False Inr p Suc.IH [OF Suc.prems(1) l] by (simp add: Let_def)
    qed
  qed
qed

lemma fold_callback_to_rerun:
  "length (fst (snd (fold (input_features_callback env rerun) recs st)))
     \<le> length (fst (snd st)) + length recs"
proof (induction recs arbitrary: st)
  case Nil
  then show ?case by simp
next
  case (Cons r recs)
  have "length (fst (snd (input_features_callback env rerun r st))) \<le> Suc (length (fst (snd st)))"
    by (simp add: input_features_callback_def Let_def split: prod.splits)
  then show ?case using Cons.IH [of "input_features_callback env rerun r st"] by simp
qed

lemma LoadShard_returns:
  assumes "batch_size env \<noteq> 0"
    and "length (ReadShard ext (world s) (MakeCorpusPath ext load_env idx)
           (MakeFeaturesPath ext load_env idx)) < fuel"
  shows "LoadShard fuel ext env load_env idx rerun s \<noteq> None"
proof -
  let ?recs = "ReadShard ext (world s) (MakeCorpusPath ext load_env idx)
           (MakeFeaturesPath ext load_env idx)"
  let ?st = "fold (input_features_callback env rerun) ?recs (s, [], 0)"
  have "length (fst (snd ?st)) \<le> length ?recs"
    using fold_callback_to_rerun [of env rerun ?recs "(s, [], 0)"] by simp
  then have "length (fst (snd ?st)) < fuel" using assms(2) by simp
  then have lt: "length (fst (snd ?st)) < fuel" .
  have r: "Rerun fuel ext env (fst (snd ?st)) s2 \<noteq> None" for s2
  proof (cases "fst (snd ?st) = []")
    case True
    then show ?thesis by (simp add: Rerun_def)
  next
    case False
    have "RerunLoop fuel ext env (MakeFeaturesPath ext env (my_shard_index env)) (fst (snd ?st))
            (LOG (InputsToRerun (length (fst (snd ?st)))) s2) \<noteq> None"
      by (rule RerunLoop_returns [OF assms(1) lt])
    then show ?thesis using False by (simp add: Rerun_def del: not_None_eq)
  qed
  show ?thesis
    unfolding LoadShard_def Let_def by (rule r)
qed

lemma AppendNewInputs_corpus:
  "corpus (fold (\<lambda>i t. AppendIfOpen (Some path) (Corpus_Get (corpus t) i) t) xs s) = corpus s"
  by (induction xs arbitrary: s) simp_all

lemma LoadShard_grows:
  assumes "LoadShard fuel ext env load_env idx rerun s = Some (Inr t)"
  shows "\<exists>new. records (corpus t) = records (corpus s) @ new"
  using Admissions_records [OF LoadShard_Admissions [OF assms Admissions_none]] by blast

text \<open>The counter of crash reports and the reports in the log, through a shard load.\<close>

lemma RerunLoop_count:
  "RerunLoop fuel ext env fp to_rerun s = Some (Inr s') \<Longrightarrow>
   num_crash_reports s \<le> max_num_crash_reports env \<Longrightarrow>
   crash_reports_logged s = unat (num_crash_reports s) \<Longrightarrow>
     num_crash_reports s' \<le> max_num_crash_reports env \<and>
     crash_reports_logged s' = unat (num_crash_reports s')"
proof (induction fuel arbitrary: to_rerun s)
  case 0
  then show ?case by simp
next
  case (Suc fuel)
  show ?case
  proof (cases "to_rerun = [] \<or> EarlyExitRequested s")
    case True
    then show ?thesis using Suc.prems by (auto split: if_splits)
  next
    case False
    let ?k = "min (length to_rerun) (unat (batch_size env))"
    from Suc.prems(1) False obtain g s1 where
      r: "RunBatch ext env (drop (length to_rerun - ?k) to_rerun) None None (Some fp) s = Inr (g, s1)"
      and l: "RerunLoop fuel ext env fp (take (length to_rerun - ?k) to_rerun)
                (if g then UpdateAndMaybeLogStats ''rerun-old'' s1 else s1) = Some (Inr s')"
      by (auto simp: Let_def split: sum.splits)
    from RunBatch_count [OF r Suc.prems(2,3)]
    have "num_crash_reports (if g then UpdateAndMaybeLogStats ''rerun-old'' s1 else s1)
            \<le> max_num_crash_reports env"
      "crash_reports_logged (if g then UpdateAndMaybeLogStats ''rerun-old'' s1 else s1) =
         unat (num_crash_reports (if g then UpdateAndMaybeLogStats ''rerun-old'' s1 else s1))"
      by simp_all
    from Suc.IH [OF l this] show ?thesis .
  qed
qed

lemma input_features_callback_count:
  "num_crash_reports (fst (input_features_callback env rerun inp st)) = num_crash_reports (fst st) \<and>
   crash_reports_logged (fst (input_features_callback env rerun inp st)) =
     crash_reports_logged (fst st)"
  by (simp add: input_features_callback_def Let_def crash_reports_logged_def
      LogFeaturesAsSymbols_def LOG_def split: prod.splits)

lemma fold_callback_count:
  "num_crash_reports (fst (fold (input_features_callback env rerun) recs st)) =
     num_crash_reports (fst st) \<and>
   crash_reports_logged (fst (fold (input_features_callback env rerun) recs st)) =
     crash_reports_logged (fst st)"
  by (induction recs arbitrary: st) (simp_all add: input_features_callback_count)

lemma LoadShard_count:
  assumes "LoadShard fuel ext env load_env idx rerun s = Some (Inr s')"
    and "num_crash_reports s \<le> max_num_crash_reports env"
    and "crash_reports_logged s = unat (num_crash_reports s)"
  shows "num_crash_reports s' \<le> max_num_crash_reports env \<and>
     crash_reports_logged s' = unat (num_crash_reports s')"
proof -
  let ?st = "fold (input_features_callback env rerun)
                 (ReadShard ext (world s) (MakeCorpusPath ext load_env idx)
                    (MakeFeaturesPath ext load_env idx)) (s, [], 0)"
  let ?s2 = "if snd (snd ?st) \<noteq> 0 then UpdateAndMaybeLogStats ''load-shard'' (fst ?st) else fst ?st"
  have c: "num_crash_reports ?s2 \<le> max_num_crash_reports env"
    "crash_reports_logged ?s2 = unat (num_crash_reports ?s2)"
    using fold_callback_count [of env rerun _ "(s, [], 0)"] assms(2,3) by simp_all
  have r: "Rerun fuel ext env (fst (snd ?st)) ?s2 = Some (Inr s')"
    using assms(1) by (simp add: LoadShard_def Let_def)
  show ?thesis
  proof (cases "fst (snd ?st) = []")
    case True
    then show ?thesis using r c by (simp add: Rerun_def)
  next
    case False
    let ?s3 = "LOG (InputsToRerun (length (fst (snd ?st)))) ?s2"
    have l: "RerunLoop fuel ext env (MakeFeaturesPath ext env (my_shard_index env))
            (fst (snd ?st)) ?s3 = Some (Inr s')"
      using r False by (simp add: Rerun_def)
    have c3: "num_crash_reports ?s3 \<le> max_num_crash_reports env"
      "crash_reports_logged ?s3 = unat (num_crash_reports ?s3)"
      using c by (simp_all add: crash_reports_logged_def)
    from RerunLoop_count [OF l c3] show ?thesis .
  qed
qed

text \<open>
  Claim C8. Once the counter of crash reports has reached \<^verbatim>\<open>max_num_crash_reports\<close>,
  \<^verbatim>\<open>ReportCrash\<close> returns at once and leaves the whole state as it is: no log line, no
  execution, no file. \<^verbatim>\<open>RunBatch\<close>, the only caller of the reporter, and \<^verbatim>\<open>LoadShard\<close>,
  which runs batches for the inputs it reruns, keep the counter at or below the bound and
  equal to the number of reports in the log: the number of reports produced never exceeds
  \<^verbatim>\<open>max_num_crash_reports\<close>.
\<close>

theorem C8_crash_reports_capped:
  "(max_num_crash_reports env \<le> num_crash_reports s \<longrightarrow>
      ReportCrash ext env bin iv br s = Inr s) \<and>
   (RunBatch ext env iv cf ff uf s = Inr (g, s') \<and>
    num_crash_reports s \<le> max_num_crash_reports env \<and>
    crash_reports_logged s = unat (num_crash_reports s) \<longrightarrow>
      num_crash_reports s' \<le> max_num_crash_reports env \<and>
      crash_reports_logged s' = unat (num_crash_reports s') \<and>
      crash_reports_logged s' \<le> unat (max_num_crash_reports env)) \<and>
   (LoadShard fuel ext env load_env idx rerun s = Some (Inr t) \<and>
    num_crash_reports s \<le> max_num_crash_reports env \<and>
    crash_reports_logged s = unat (num_crash_reports s) \<longrightarrow>
      num_crash_reports t \<le> max_num_crash_reports env \<and>
      crash_reports_logged t = unat (num_crash_reports t) \<and>
      crash_reports_logged t \<le> unat (max_num_crash_reports env))"
  using ReportCrash_capped [of env s ext bin iv br] RunBatch_count [of ext env iv cf ff uf s g s']
    LoadShard_count [of fuel ext env load_env idx rerun s t]
  by (auto simp: word_le_nat_alt)

text \<open>
  Claim C4. \<^verbatim>\<open>LoadShard\<close> only appends to the corpus, so the number of active records
  after it is at least the number before. In \<^verbatim>\<open>MergeFromOtherCorpus\<close> the \<^verbatim>\<open>CHECK_GE\<close>
  therefore never fires: a failure of the merge is a failure that \<^verbatim>\<open>LoadShard\<close> itself
  ended with, and a merge that returns has not shrunk the corpus. \<^verbatim>\<open>LoadShard\<close> does
  return when the batch size is not zero (the bound on the iterations of \<^verbatim>\<open>Rerun\<close> only
  has to exceed the number of records of the shard).
\<close>

theorem C4_LoadShard_never_shrinks:
  "(LoadShard fuel ext env load_env idx rerun s = Some (Inr t) \<longrightarrow>
      NumActive (corpus s) \<le> NumActive (corpus t) \<and>
      (\<exists>new. records (corpus t) = records (corpus s) @ new)) \<and>
   (MergeFromOtherCorpus fuel ext env dir idx s = Some (Inl e) \<longrightarrow>
      LoadShard fuel ext env (env\<lparr>workdir := dir\<rparr>) idx True (LOG (MergeFrom dir) s)
        = Some (Inl e)) \<and>
   (MergeFromOtherCorpus fuel ext env dir idx s = Some (Inr u) \<longrightarrow>
      NumActive (corpus s) \<le> NumActive (corpus u)) \<and>
   (batch_size env \<noteq> 0 \<and>
    length (ReadShard ext (world s) (MakeCorpusPath ext load_env idx)
             (MakeFeaturesPath ext load_env idx)) < fuel \<longrightarrow>
      LoadShard fuel ext env load_env idx rerun s \<noteq> None)"
proof -
  have grow: "\<And>s0 le r t0. LoadShard fuel ext env le idx r s0 = Some (Inr t0) \<Longrightarrow>
      NumActive (corpus s0) \<le> NumActive (corpus t0)"
    using LoadShard_grows by (fastforce simp: NumActive_def)
  have a: "LoadShard fuel ext env load_env idx rerun s = Some (Inr t) \<longrightarrow>
      NumActive (corpus s) \<le> NumActive (corpus t) \<and>
      (\<exists>new. records (corpus t) = records (corpus s) @ new)"
    using grow LoadShard_grows by blast
  let ?L = "LoadShard fuel ext env (env\<lparr>workdir := dir\<rparr>) idx True (LOG (MergeFrom dir) s)"
  have b: "MergeFromOtherCorpus fuel ext env dir idx s = Some (Inl e) \<longrightarrow> ?L = Some (Inl e)"
  proof
    assume m: "MergeFromOtherCorpus fuel ext env dir idx s = Some (Inl e)"
    show "?L = Some (Inl e)"
    proof (cases ?L)
      case None
      then show ?thesis using m by (simp add: MergeFromOtherCorpus_def Let_def)
    next
      case (Some r)
      show ?thesis
      proof (cases r)
        case (Inl f)
        then show ?thesis using m Some by (simp add: MergeFromOtherCorpus_def Let_def)
      next
        case (Inr s1)
        have "NumActive (corpus (LOG (MergeFrom dir) s)) \<le> NumActive (corpus s1)"
          using grow Some Inr by blast
        then show ?thesis
          using m Some Inr by (simp add: MergeFromOtherCorpus_def Let_def split: if_splits)
      qed
    qed
  qed
  have c: "MergeFromOtherCorpus fuel ext env dir idx s = Some (Inr u) \<longrightarrow>
      NumActive (corpus s) \<le> NumActive (corpus u)"
  proof
    assume m: "MergeFromOtherCorpus fuel ext env dir idx s = Some (Inr u)"
    then obtain s1 where l: "?L = Some (Inr s1)" and u: "corpus u = corpus s1"
      by (auto simp: MergeFromOtherCorpus_def Let_def AppendNewInputs_def AppendNewInputs_corpus
          split: option.splits sum.splits if_splits)
    have "NumActive (corpus (LOG (MergeFrom dir) s)) \<le> NumActive (corpus s1)"
      using grow l by blast
    then show "NumActive (corpus s) \<le> NumActive (corpus u)" using u by simp
  qed
  show ?thesis using a b c LoadShard_returns [of env ext s load_env idx fuel rerun] by blast
qed


subsection \<open>The theorems on the toy target\<close>

lemmas grade_defs = GradeInput_def InputGainedNewCoverage_def CountUnseenAndPruneFrequentFeatures_def
  InputPassesFilter_def IncrementFrequencies_def IncrementFrequency_def saturating_increment_def
  Frequency_def LogFeaturesAsSymbols_def AppendIfOpen_def WriteToLocalHashedFileInDir_def
  Corpus_Add_def EarlyExitRequested_def

lemmas load_defs = LoadShard_def Rerun_def input_features_callback_def UpdateAndMaybeLogStats_def
  MergeFromOtherCorpus_def AppendNewInputs_def NumActive_def Corpus_Get_def

lemma eval_exit_batch:
  "\<exists>s1. RunBatch toy env_exit [[99]] None None None state0 = Inr (False, s1) \<and>
     num_crash_reports s1 = 1 \<and> remote_files s1 ''wd/crashes/crasher'' = Some [99] \<and>
     executions s1 = [(''target'', [[99]], False), (''target'', [[99]], False)]"
  by (simp add: engine_defs toy_defs)

text \<open>
  A failed batch does leave a file behind: with \<^verbatim>\<open>exit_on_crash\<close> set, the batch of the one
  crashing input returns false and the reproducer is in \<^verbatim>\<open>wd/crashes\<close>, where no file was
  before.
\<close>

theorem C7_failed_batch_writes_reproducer:
  "exit_on_crash env_exit \<and> remote_files state0 ''wd/crashes/crasher'' = None \<and>
   (case RunBatch toy env_exit [[99]] None None None state0 of
      Inl e \<Rightarrow> None
    | Inr (g, s1) \<Rightarrow> Some (g, remote_files s1 ''wd/crashes/crasher'')) = Some (False, Some [99])"
  by (simp add: engine_defs toy_defs)

theorem C7_exit_on_crash_skips_grading_witness:
  "exit_on_crash env_exit \<and>
   (\<exists>s1. RunBatch toy env_exit [[1, 2], [99]] (Some ''c'') (Some ''f'') None state0 = Inr (False, s1) \<and>
      EarlyExitRequested s1 \<and> ExitCode s1 = 1 \<and> fs s1 = fs state0 \<and> corpus s1 = corpus state0 \<and>
      num_runs s1 = 0 \<and> blob_files s1 = blob_files state0 \<and> local_files s1 = local_files state0)"
proof -
  have "\<exists>s1. RunBatch toy env_exit [[1, 2], [99]] (Some ''c'') (Some ''f'') None state0 = Inr (False, s1) \<and>
     executions s1 = [(''target'', [[1, 2], [99]], False), (''target'', [[99]], False)]"
    by (simp add: engine_defs toy_defs)
  then obtain s1 where
    r: "RunBatch toy env_exit [[1, 2], [99]] (Some ''c'') (Some ''f'') None state0 = Inr (False, s1)"
    and e: "executions s1 = [(''target'', [[1, 2], [99]], False), (''target'', [[99]], False)]"
    by blast
  have x: "exit_on_crash env_exit" by (simp add: toy_defs)
  have l: "list_ex (\<lambda>e. \<not> snd (snd e)) (drop (length (executions state0)) (executions s1))"
    using e by (simp add: toy_defs)
  have "num_runs state0 = 0" by (simp add: toy_defs)
  then show ?thesis
    using C7_exit_on_crash_skips_grading [OF r x l] r x by auto
qed

theorem C5_ReportCrash_first_reproducer_witness:
  "num_crash_reports state0 < max_num_crash_reports env35 \<and>
   input_idxs_to_try 3 1 = [1, 0, 1, 2] \<and>
   (\<exists>s1. ReportCrash toy env35 ''target'' [[1], [99], [2]] crash_result state0 = Inr s1 \<and>
      executions s1 = [(''target'', [[99]], False)] \<and>
      remote_files s1 ''wd/crashes/crasher'' = Some [99] \<and>
      (\<exists>k. k \<le> length (input_idxs_to_try (length [[1], [99], [2 :: uint8_t]])
                        (num_outputs_read crash_result)) \<and>
         executions s1 = executions state0 @
           map (\<lambda>i. (''target'', [[[1], [99], [2]] ! i], True))
             (take k (input_idxs_to_try (length [[1], [99], [2 :: uint8_t]])
                        (num_outputs_read crash_result))) @
           (if k < length (input_idxs_to_try (length [[1], [99], [2 :: uint8_t]])
                        (num_outputs_read crash_result))
            then [(''target'', [[[1], [99], [2]] !
                    (input_idxs_to_try (length [[1], [99], [2 :: uint8_t]])
                        (num_outputs_read crash_result) ! k)], False)]
            else [])))"
proof -
  have lt: "num_crash_reports state0 < max_num_crash_reports env35"
    by (simp add: toy_defs)
  have i: "input_idxs_to_try 3 1 = [1, 0, 1, 2]"
    by (simp add: input_idxs_to_try_def upt_rec)
  have "\<exists>s1. ReportCrash toy env35 ''target'' [[1], [99], [2]] crash_result state0 = Inr s1 \<and>
      executions s1 = [(''target'', [[99]], False)] \<and>
      remote_files s1 ''wd/crashes/crasher'' = Some [99]"
    by (simp add: engine_defs toy_defs crash_result_def upt_rec)
  then obtain s1 where
    r: "ReportCrash toy env35 ''target'' [[1], [99], [2]] crash_result state0 = Inr s1"
    and e: "executions s1 = [(''target'', [[99]], False)]"
      "remote_files s1 ''wd/crashes/crasher'' = Some [99]"
    by blast
  note c = C5_ReportCrash_first_reproducer [OF lt r, THEN conjunct2, THEN conjunct2]
  from c obtain k where
    "k \<le> length (input_idxs_to_try (length [[1], [99], [2 :: uint8_t]])
                        (num_outputs_read crash_result))"
    "executions s1 = executions state0 @
           map (\<lambda>i. (''target'', [[[1], [99], [2]] ! i], True))
             (take k (input_idxs_to_try (length [[1], [99], [2 :: uint8_t]])
                        (num_outputs_read crash_result))) @
           (if k < length (input_idxs_to_try (length [[1], [99], [2 :: uint8_t]])
                        (num_outputs_read crash_result))
            then [(''target'', [[[1], [99], [2]] !
                    (input_idxs_to_try (length [[1], [99], [2 :: uint8_t]])
                        (num_outputs_read crash_result) ! k)], False)]
            else [])"
    by blast
  then show ?thesis using lt i r e by blast
qed

lemma eval_state_after_report:
  "state_after_report = state0\<lparr>num_crash_reports := 1,
     log_lines := log_lines state_after_report,
     remote_files := (remote_files state0)(''wd/crashes/crasher'' \<mapsto> [99]),
     remote_dirs := [''wd/crashes''], world := 2,
     executions := [(''target'', [[99]], False), (''target'', [[99]], False)]\<rparr>"
  by (simp add: state_after_report_def engine_defs toy_defs upt_rec)

text \<open>
  Claim C5 without the bound of reports. With \<^verbatim>\<open>max_num_crash_reports = 0\<close>, and again
  after the one report that \<^verbatim>\<open>max_num_crash_reports = 1\<close> allows, the batch \<open>[[1], [99]]\<close>
  fails and the input \<open>[99]\<close> fails on its own; the reporter executes no input one by one,
  writes no reproducer and logs nothing: the state changes by the execution of the batch
  only.
\<close>

theorem C5_no_reproducer_at_the_cap:
  "\<not> fst (toy_Execute 1 ''target'' [[99]]) \<and>
   max_num_crash_reports env_no_reports = 0 \<and>
   ExecuteAndReportCrash toy env_no_reports ''target'' [[1], [99]] state0 =
     Inr (False, fst (snd (toy_Execute 0 ''target'' [[1], [99]])),
          state0\<lparr>world := 1, executions := [(''target'', [[1], [99]], False)]\<rparr>) \<and>
   remote_files state0 ''wd/crashes/crasher'' = None \<and>
   log_lines state0 = [] \<and>
   max_num_crash_reports env_exit = 1 \<and>
   num_crash_reports state_after_report = 1 \<and>
   ExecuteAndReportCrash toy env_exit ''target'' [[1], [99]] state_after_report =
     Inr (False, fst (snd (toy_Execute 2 ''target'' [[1], [99]])),
          state_after_report\<lparr>world := 3,
            executions := executions state_after_report @ [(''target'', [[1], [99]], False)]\<rparr>)"
proof -
  have a: "ExecuteAndReportCrash toy env_no_reports ''target'' [[1], [99]] state0 =
     Inr (False, fst (snd (toy_Execute 0 ''target'' [[1], [99]])),
          state0\<lparr>world := 1, executions := [(''target'', [[1], [99]], False)]\<rparr>)"
    by (simp add: env_no_reports_def engine_defs toy_defs)
  have n: "num_crash_reports state_after_report = 1"
    by (subst eval_state_after_report) simp
  have w: "world state_after_report = 2"
    by (subst eval_state_after_report) simp
  have b: "ExecuteAndReportCrash toy env_exit ''target'' [[1], [99]] state_after_report =
     Inr (False, fst (snd (toy_Execute 2 ''target'' [[1], [99]])),
          state_after_report\<lparr>world := 3,
            executions := executions state_after_report @ [(''target'', [[1], [99]], False)]\<rparr>)"
    using n w by (simp add: ExecuteAndReportCrash_def ReportCrash_def Let_def toy_def
        toy_Execute_def toy_crashes_def env_exit_def env35_def)
  show ?thesis
    using a n b by (simp add: toy_defs env_no_reports_def)
qed



lemma eval_load_shard:
  "\<exists>t. LoadShard (Suc (Suc (Suc (Suc 0)))) toy env35 env35 3 True state0 = Some (Inr t) \<and>
     records (corpus t) = [\<lparr>data = [1, 2], features = [1, 2], cmp_args = []\<rparr>,
                           \<lparr>data = [3], features = [3], cmp_args = []\<rparr>]"
  by (simp add: engine_defs grade_defs load_defs toy_defs)

lemma eval_merge:
  "\<exists>u. MergeFromOtherCorpus (Suc (Suc (Suc (Suc 0)))) toy env35 ''wd'' 3 state0 = Some (Inr u) \<and>
     NumActive (corpus u) = 2 \<and> blob_files u ''wd/corpus'' = [[1, 2], [3]]"
  by (simp add: engine_defs grade_defs load_defs toy_defs upt_rec)

theorem C8_crash_reports_capped_witness:
  "\<exists>s1 t. RunBatch toy env_exit [[99]] None None None state0 = Inr (False, s1) \<and>
     num_crash_reports s1 = 1 \<and> crash_reports_logged s1 = 1 \<and>
     ReportCrash toy env_exit ''target'' [[99]] crash_result s1 = Inr s1 \<and>
     LoadShard (Suc (Suc (Suc (Suc 0)))) toy env35 env35 3 True state0 = Some (Inr t) \<and>
     crash_reports_logged t \<le> unat (max_num_crash_reports env35)"
proof -
  obtain s1 where r: "RunBatch toy env_exit [[99]] None None None state0 = Inr (False, s1)"
    and n: "num_crash_reports s1 = 1"
    using eval_exit_batch by blast
  obtain t where l: "LoadShard (Suc (Suc (Suc (Suc 0)))) toy env35 env35 3 True state0 = Some (Inr t)"
    using eval_load_shard by blast
  have h1: "num_crash_reports state0 \<le> max_num_crash_reports env_exit"
    and h2: "num_crash_reports state0 \<le> max_num_crash_reports env35"
    and h3: "crash_reports_logged state0 = unat (num_crash_reports state0)"
    by (simp_all add: toy_defs crash_reports_logged_def)
  have h4: "max_num_crash_reports env_exit \<le> num_crash_reports s1"
    using n by (simp add: toy_defs)
  note a = C8_crash_reports_capped [of env_exit state0 toy "''target''" "[[99]]" crash_result
      None None None False s1 "Suc (Suc (Suc (Suc 0)))" env35 3 True t]
  note b = C8_crash_reports_capped [of env_exit s1 toy "''target''" "[[99]]" crash_result
      None None None False s1 "Suc (Suc (Suc (Suc 0)))" env35 3 True t]
  note c = C8_crash_reports_capped [of env35 state0 toy "''target''" "[[99]]" crash_result
      None None None False s1 "Suc (Suc (Suc (Suc 0)))" env35 3 True t]
  have a': "crash_reports_logged s1 = unat (num_crash_reports s1)"
    using a [THEN conjunct2, THEN conjunct1] r h1 h3 by blast
  have b': "ReportCrash toy env_exit ''target'' [[99]] crash_result s1 = Inr s1"
    using b [THEN conjunct1] h4 by blast
  have c': "crash_reports_logged t \<le> unat (max_num_crash_reports env35)"
    using c [THEN conjunct2, THEN conjunct2] l h2 h3 by blast
  have "crash_reports_logged s1 = 1" using a' n by simp
  then show ?thesis using r n b' l c' by blast
qed



theorem C4_LoadShard_never_shrinks_witness:
  "batch_size env35 \<noteq> 0 \<and>
   (\<exists>t u. LoadShard (Suc (Suc (Suc (Suc 0)))) toy env35 env35 3 True state0 = Some (Inr t) \<and>
      NumActive (corpus state0) \<le> NumActive (corpus t) \<and>
      MergeFromOtherCorpus (Suc (Suc (Suc (Suc 0)))) toy env35 ''wd'' 3 state0 = Some (Inr u) \<and>
      NumActive (corpus state0) \<le> NumActive (corpus u) \<and> NumActive (corpus u) = 2)"
proof -
  obtain t where l: "LoadShard (Suc (Suc (Suc (Suc 0)))) toy env35 env35 3 True state0 = Some (Inr t)"
    using eval_load_shard by blast
  obtain u where m: "MergeFromOtherCorpus (Suc (Suc (Suc (Suc 0)))) toy env35 ''wd'' 3 state0 = Some (Inr u)"
    and mu: "NumActive (corpus u) = 2"
    using eval_merge by blast
  have b: "batch_size env35 \<noteq> 0" by (simp add: env35_def)
  show ?thesis
    using C4_LoadShard_never_shrinks [of "Suc (Suc (Suc (Suc 0)))" toy env35 env35 3 True state0 t
        "''wd''" _ u] l m mu b
    by blast
qed

end
